(* ===== verification/Prelude.thy ===== *)
theory Prelude
  imports Main "HOL-Library.Word"
begin

text \<open>
  What every component shares: the machine integers and the checked and saturating operations on
  them, the result type of fallible code, and the panic-free slice operations of the standard
  library. The operations on \<open>str\<close> are in \<open>Text_Ops\<close>.

  Conventions: a byte is an \<open>8 word\<close>; a Rust \<open>str\<close> is the list of its UTF-8 bytes, each
  a \<open>char\<close>; \<open>Vec\<close> and slices are lists and their lengths are \<open>nat\<close> (a slice never has
  more than \<open>isize::MAX\<close> elements); an integer that the code computes with, and that may
  overflow, keeps its width. The target is a 64-bit one, so \<open>usize\<close> has the width of \<open>u64\<close>.
\<close>

section \<open>Types\<close>

type_synonym u8 = "8 word"
type_synonym u16 = "16 word"
type_synonym u32 = "32 word"
type_synonym u64 = "64 word"
type_synonym usize = "64 word"
type_synonym bytes = "8 word list"

text \<open>What the \<open>cfg\<close> attributes distinguish: \<open>unix\<close>, \<open>windows\<close>, and everything else.\<close>

datatype platform = Unix | Windows | OtherPlatform

named_theorems slices \<open>equations of the panic-free slice operations\<close>
named_theorems charset \<open>which characters an encoder can emit\<close>
named_theorems codec_ok \<open>decoding what an encoder emitted\<close>

section \<open>Results\<close>

text \<open>\<open>Result<T, E>\<close> is \<open>'e + 'a\<close>: \<open>Inl\<close> is \<open>Err\<close>, \<open>Inr\<close> is \<open>Ok\<close>; the
  \<open>?\<close> operator is \<open>res_bind\<close>.\<close>

fun res_bind :: "'e + 'a \<Rightarrow> ('a \<Rightarrow> 'e + 'b) \<Rightarrow> 'e + 'b" where
  "res_bind (Inl e) f = Inl e"
| "res_bind (Inr a) f = f a"

fun res_map_err :: "('e \<Rightarrow> 'f) \<Rightarrow> 'e + 'a \<Rightarrow> 'f + 'a" where
  "res_map_err f (Inl e) = Inl (f e)"
| "res_map_err f (Inr a) = Inr a"

fun ok_or :: "'e \<Rightarrow> 'a option \<Rightarrow> 'e + 'a" where
  "ok_or e None = Inl e"
| "ok_or e (Some a) = Inr a"

text \<open>\<open>iter().map(f).collect::<Result<Vec<_>, _>>()\<close>: the first error wins.\<close>

fun res_collect :: "('a \<Rightarrow> 'e + 'b) \<Rightarrow> 'a list \<Rightarrow> 'e + 'b list" where
  "res_collect f [] = Inr []"
| "res_collect f (x # xs) = res_bind (f x) (\<lambda>y. res_bind (res_collect f xs) (\<lambda>ys. Inr (y # ys)))"

definition is_ok :: "'e + 'a \<Rightarrow> bool" where
  "is_ok r = (case r of Inl _ \<Rightarrow> False | Inr _ \<Rightarrow> True)"

lemma is_ok_simps [simp]: "is_ok (Inr a)" "\<not> is_ok (Inl e)"
  by (simp_all add: is_ok_def)

lemma res_bind_cong [fundef_cong]:
  "m = m' \<Longrightarrow> (\<And>a. m' = Inr a \<Longrightarrow> f a = g a) \<Longrightarrow> res_bind m f = res_bind m' g"
  by (cases m') auto

lemma res_bind_assoc: "res_bind (res_bind m f) g = res_bind m (\<lambda>a. res_bind (f a) g)"
  by (cases m) simp_all

lemma res_bind_Inr_iff: "res_bind m f = Inr b \<longleftrightarrow> (\<exists>a. m = Inr a \<and> f a = Inr b)"
  by (cases m) auto

lemma res_bind_Inl_iff:
  "res_bind m f = Inl e \<longleftrightarrow> m = Inl e \<or> (\<exists>a. m = Inr a \<and> f a = Inl e)"
  by (cases m) auto

lemma res_map_err_Inr_iff [simp]: "res_map_err f m = Inr a \<longleftrightarrow> m = Inr a"
  by (cases m) auto

lemma ok_or_Inr_iff [simp]: "ok_or e m = Inr a \<longleftrightarrow> m = Some a"
  by (cases m) auto

lemma ok_or_Inl_iff [simp]: "ok_or e m = Inl e' \<longleftrightarrow> m = None \<and> e' = e"
  by (cases m) auto

lemma res_collect_map:
  "(\<And>x. x \<in> set xs \<Longrightarrow> f (g x) = Inr (h x)) \<Longrightarrow> res_collect f (map g xs) = Inr (map h xs)"
  by (induction xs) auto

lemma res_collect_Inr_iff:
  "res_collect f xs = Inr ys \<longleftrightarrow> list_all2 (\<lambda>x y. f x = Inr y) xs ys"
  by (induction xs arbitrary: ys) (auto simp: res_bind_Inr_iff list_all2_Cons1)

lemma res_collect_Inl:
  "res_collect f xs = Inl e \<Longrightarrow> \<exists>x \<in> set xs. f x = Inl e"
  by (induction xs) (auto simp: res_bind_Inl_iff)

lemma res_collect_Inr_mem:
  "res_collect f xs = Inr ys \<Longrightarrow> y \<in> set ys \<Longrightarrow> \<exists>x \<in> set xs. f x = Inr y"
  by (induction xs arbitrary: ys) (auto simp: res_bind_Inr_iff)

lemma res_collect_length: "res_collect f xs = Inr ys \<Longrightarrow> length ys = length xs"
  by (auto simp: res_collect_Inr_iff dest: list_all2_lengthD)

section \<open>Checked and saturating arithmetic\<close>

definition checked_add :: "'a::len word \<Rightarrow> 'a word \<Rightarrow> 'a word option" where
  "checked_add a b = (if unat a + unat b < 2 ^ LENGTH('a) then Some (a + b) else None)"

definition checked_sub :: "'a::len word \<Rightarrow> 'a word \<Rightarrow> 'a word option" where
  "checked_sub a b = (if b \<le> a then Some (a - b) else None)"

definition saturating_add :: "'a::len word \<Rightarrow> 'a word \<Rightarrow> 'a word" where
  "saturating_add a b = (if unat a + unat b < 2 ^ LENGTH('a) then a + b else -1)"

definition saturating_sub :: "'a::len word \<Rightarrow> 'a word \<Rightarrow> 'a word" where
  "saturating_sub a b = (if b \<le> a then a - b else 0)"

lemma unat_add_no_overflow:
  fixes a b :: "'a::len word"
  shows "unat a + unat b < 2 ^ LENGTH('a) \<Longrightarrow> unat (a + b) = unat a + unat b"
  by (simp add: unat_word_ariths)

lemma unat_minus_one': "unat (- 1 :: 'a::len word) = 2 ^ LENGTH('a) - 1"
  by (simp add: unsigned_minus_1_eq_mask mask_eq_exp_minus_1)

lemma unat_saturating_add:
  fixes a b :: "'a::len word"
  shows "unat (saturating_add a b) = min (unat a + unat b) (2 ^ LENGTH('a) - 1)"
  by (auto simp: saturating_add_def unat_add_no_overflow unat_minus_one' min_def)

lemma unat_saturating_sub: "unat (saturating_sub a b) = unat a - unat b"
  by (auto simp: saturating_sub_def unat_sub word_le_nat_alt)

lemma checked_add_Some_iff:
  fixes a b :: "'a::len word"
  shows "checked_add a b = Some c \<longleftrightarrow> unat a + unat b < 2 ^ LENGTH('a) \<and> c = a + b"
  by (auto simp: checked_add_def)

lemma checked_add_unat:
  "checked_add a b = Some c \<Longrightarrow> unat c = unat a + unat b"
  by (simp add: checked_add_Some_iff unat_add_no_overflow)

lemma unat_byte_less: "unat (b :: u8) < 256"
  using unsigned_less [of b] by simp

lemma unat_u64_less: "unat (w :: u64) < 2 ^ 64"
  using unsigned_less [of w] by simp

lemma unat_min: "unat (min a b) = min (unat a) (unat b)"
  by (auto simp: min_def word_le_nat_alt)

section \<open>Panic-free slice access\<close>

text \<open>\<open>slice.get(a..b)\<close> and \<open>slice.get(i)\<close>.\<close>

definition slice_get :: "nat \<Rightarrow> nat \<Rightarrow> 'a list \<Rightarrow> 'a list option" where
  "slice_get a b xs = (if a \<le> b \<and> b \<le> length xs then Some (take (b - a) (drop a xs)) else None)"

definition list_get :: "nat \<Rightarrow> 'a list \<Rightarrow> 'a option" where
  "list_get i xs = (if i < length xs then Some (xs ! i) else None)"

text \<open>\<open>slice.get(..n).unwrap_or(&[])\<close>, the shape the resolver's sniff buffers are read in.\<close>

definition prefix_or_empty :: "nat \<Rightarrow> 'a list \<Rightarrow> 'a list" where
  "prefix_or_empty n xs = (case slice_get 0 n xs of None \<Rightarrow> [] | Some ys \<Rightarrow> ys)"

lemma slice_get_Some_iff [slices]:
  "slice_get a b xs = Some ys \<longleftrightarrow> a \<le> b \<and> b \<le> length xs \<and> ys = take (b - a) (drop a xs)"
  by (auto simp: slice_get_def)

lemma slice_get_length: "slice_get a b xs = Some ys \<Longrightarrow> length ys = b - a"
  by (auto simp: slices)

lemma slice_get_prefix [slices]: "n \<le> length xs \<Longrightarrow> slice_get 0 n xs = Some (take n xs)"
  by (simp add: slice_get_def)

lemma prefix_or_empty_le [slices]: "n \<le> length xs \<Longrightarrow> prefix_or_empty n xs = take n xs"
  by (simp add: prefix_or_empty_def slices)

lemma list_get_Some_iff [slices]: "list_get i xs = Some x \<longleftrightarrow> i < length xs \<and> x = xs ! i"
  by (auto simp: list_get_def)

end
