(* ===== verification/Text_Ops.thy ===== *)
theory Text_Ops
  imports Prelude
begin

text \<open>
  The text operations of Rust's standard library that the locator codec calls: bytes and
  characters, \<open>split\<close>, \<open>split_once\<close>, \<open>splitn(2, _)\<close> and \<open>strip_prefix\<close>, the integer
  formatters (\<open>{n}\<close>, \<open>{b:02x}\<close>, \<open>{b:02X}\<close>) and the integer parsers (\<open>str::parse\<close>,
  \<open>from_str_radix\<close>), with the leading \<open>+\<close> those accept. The lemmas invert each formatter by
  its parser and each join by its split.
\<close>

section \<open>Bytes and characters\<close>

definition byte_char :: "u8 \<Rightarrow> char" where
  "byte_char b = char_of (unat b)"

definition char_byte :: "char \<Rightarrow> u8" where
  "char_byte c = word_of_nat (of_char c)"

lemma unat_char_byte: "unat (char_byte c) = of_char c"
  by (simp add: char_byte_def unat_of_nat)

lemma char_byte_byte_char [simp]: "char_byte (byte_char b) = b"
  using unat_byte_less [of b] by (simp add: char_byte_def byte_char_def)

lemma byte_char_char_byte [simp]: "byte_char (char_byte c) = c"
  by (simp add: byte_char_def unat_char_byte)

lemma byte_char_inj: "byte_char a = byte_char b \<longleftrightarrow> a = b"
  by (metis char_byte_byte_char)

text \<open>\<open>str::as_bytes\<close>, and the text whose bytes are given.\<close>

definition as_bytes :: "string \<Rightarrow> bytes" where
  "as_bytes s = map char_byte s"

definition of_bytes :: "bytes \<Rightarrow> string" where
  "of_bytes bs = map byte_char bs"

lemma as_bytes_of_bytes [simp]: "as_bytes (of_bytes bs) = bs"
  by (simp add: as_bytes_def of_bytes_def comp_def)

lemma of_bytes_as_bytes [simp]: "of_bytes (as_bytes s) = s"
  by (simp add: as_bytes_def of_bytes_def comp_def)

section \<open>Splitting\<close>

text \<open>\<open>s.split(c)\<close>: never empty, \<open>""\<close> splits into one empty piece.\<close>

fun split_on :: "char \<Rightarrow> string \<Rightarrow> string list" where
  "split_on c [] = [[]]"
| "split_on c (x # xs) =
     (if x = c then [] # split_on c xs
      else (case split_on c xs of [] \<Rightarrow> [[x]] | y # ys \<Rightarrow> (x # y) # ys))"

fun split_once :: "char \<Rightarrow> string \<Rightarrow> (string \<times> string) option" where
  "split_once c [] = None"
| "split_once c (x # xs) =
     (if x = c then Some ([], xs) else map_option (\<lambda>(a, b). (x # a, b)) (split_once c xs))"

text \<open>\<open>s.splitn(2, c)\<close>.\<close>

definition splitn2 :: "char \<Rightarrow> string \<Rightarrow> string list" where
  "splitn2 c s = (case split_once c s of None \<Rightarrow> [s] | Some (a, b) \<Rightarrow> [a, b])"

fun strip_prefix :: "string \<Rightarrow> string \<Rightarrow> string option" where
  "strip_prefix [] s = Some s"
| "strip_prefix (p # ps) [] = None"
| "strip_prefix (p # ps) (x # xs) = (if p = x then strip_prefix ps xs else None)"

fun join_with :: "char \<Rightarrow> string list \<Rightarrow> string" where
  "join_with c [] = []"
| "join_with c [x] = x"
| "join_with c (x # xs) = x @ c # join_with c xs"

lemma split_on_nonempty: "split_on c s \<noteq> []"
  by (cases s) (auto split: list.splits)

lemma split_on_clean: "c \<notin> set s \<Longrightarrow> split_on c s = [s]"
  by (induction s) auto

lemma split_on_append:
  "c \<notin> set a \<Longrightarrow> split_on c (a @ c # b) = a # split_on c b"
  by (induction a) auto

lemma split_on_join:
  "xs \<noteq> [] \<Longrightarrow> (\<And>x. x \<in> set xs \<Longrightarrow> c \<notin> set x) \<Longrightarrow> split_on c (join_with c xs) = xs"
  by (induction c xs rule: join_with.induct) (auto simp: split_on_clean split_on_append)

lemma split_on_pieces: "x \<in> set (split_on c s) \<Longrightarrow> c \<notin> set x"
  by (induction s arbitrary: x) (auto split: if_splits list.splits)

lemma join_split_on: "join_with c (split_on c s) = s"
proof (induction s)
  case (Cons x s)
  show ?case
  proof (cases "split_on c s")
    case Nil
    then show ?thesis using split_on_nonempty by blast
  next
    case (Cons y ys)
    then show ?thesis using Cons.IH by (cases ys) auto
  qed
qed simp

lemma split_once_append: "c \<notin> set a \<Longrightarrow> split_once c (a @ c # b) = Some (a, b)"
  by (induction a) auto

lemma split_once_None_iff: "split_once c s = None \<longleftrightarrow> c \<notin> set s"
  by (induction s) auto

lemma split_once_SomeD: "split_once c s = Some (a, b) \<Longrightarrow> s = a @ c # b \<and> c \<notin> set a"
  by (induction s arbitrary: a) (auto split: if_splits)

lemma strip_prefix_append [simp]: "strip_prefix p (p @ s) = Some s"
  by (induction p) auto

lemma strip_prefix_Some_iff: "strip_prefix p s = Some r \<longleftrightarrow> s = p @ r"
  by (induction p s rule: strip_prefix.induct) auto

section \<open>Decimal and hexadecimal digits\<close>

definition digit_char :: "nat \<Rightarrow> char" where
  "digit_char n = char_of (48 + n)"

text \<open>\<open>{n}\<close> on an unsigned integer.\<close>

fun show_nat :: "nat \<Rightarrow> string" where
  "show_nat n = (if n < 10 then [digit_char n] else show_nat (n div 10) @ [digit_char (n mod 10)])"

declare show_nat.simps [simp del]

definition show_word :: "'a::len word \<Rightarrow> string" where
  "show_word w = show_nat (unat w)"

lemma show_word_zero: "show_word 0 = ''0''"
proof -
  have "digit_char 0 = CHR ''0''" by code_simp
  then show ?thesis by (simp add: show_word_def show_nat.simps)
qed

text \<open>\<open>{b:02x}\<close> and \<open>{b:02X}\<close> on a byte.\<close>

definition hex_digit :: "nat \<Rightarrow> nat \<Rightarrow> char" where
  "hex_digit letter n = char_of (if n < 10 then 48 + n else letter + (n - 10))"

definition hex2_upper :: "u8 \<Rightarrow> string" where
  "hex2_upper b = [hex_digit 65 (unat b div 16), hex_digit 65 (unat b mod 16)]"

definition hex2_lower :: "u8 \<Rightarrow> string" where
  "hex2_lower b = [hex_digit 97 (unat b div 16), hex_digit 97 (unat b mod 16)]"

text \<open>\<open>char::to_digit(radix)\<close>: decimal digits, then letters of either case.\<close>

definition to_digit :: "nat \<Rightarrow> char \<Rightarrow> nat option" where
  "to_digit radix c =
     (let n = of_char c :: nat;
          d = (if 48 \<le> n \<and> n \<le> 57 then n - 48
               else if 65 \<le> n \<and> n \<le> 90 then n - 65 + 10
               else if 97 \<le> n \<and> n \<le> 122 then n - 97 + 10
               else radix)
      in if d < radix then Some d else None)"

fun digits_value :: "nat \<Rightarrow> nat \<Rightarrow> string \<Rightarrow> nat option" where
  "digits_value radix acc [] = Some acc"
| "digits_value radix acc (c # cs) =
     (case to_digit radix c of None \<Rightarrow> None | Some d \<Rightarrow> digits_value radix (acc * radix + d) cs)"

text \<open>
  \<open>uN::from_str_radix\<close> (and \<open>str::parse::<uN>\<close>, radix 10): the empty string and a lone sign are
  errors, one leading \<open>+\<close> is accepted, and a value that does not fit is an error. The code
  checks the overflow at every digit; since the value only grows with each digit, that is an
  overflow of the whole value.
\<close>

definition unsigned_digits :: "string \<Rightarrow> string" where
  "unsigned_digits s = (case s of c # d # ds \<Rightarrow> if c = CHR ''+'' then d # ds else s | _ \<Rightarrow> s)"

definition parse_unsigned :: "nat \<Rightarrow> string \<Rightarrow> 'a::len word option" where
  "parse_unsigned radix s =
     (if s = [] then None
      else case digits_value radix 0 (unsigned_digits s) of
             None \<Rightarrow> None
           | Some n \<Rightarrow> if n < 2 ^ LENGTH('a) then Some (word_of_nat n) else None)"

section \<open>Formatting and parsing are inverse\<close>

lemma to_digit_digit_char: "n < 10 \<Longrightarrow> 10 \<le> radix \<Longrightarrow> to_digit radix (digit_char n) = Some n"
  by (simp add: to_digit_def digit_char_def)

lemma to_digit_hex_digit:
  "n < 16 \<Longrightarrow> to_digit 16 (hex_digit 65 n) = Some n"
  "n < 16 \<Longrightarrow> to_digit 16 (hex_digit 97 n) = Some n"
  by (auto simp: to_digit_def hex_digit_def Let_def)

lemma digits_value_append:
  "digits_value r a (xs @ ys) = Option.bind (digits_value r a xs) (\<lambda>v. digits_value r v ys)"
  by (induction r a xs rule: digits_value.induct) (auto split: option.splits)

lemma digits_value_show_nat: "digits_value 10 0 (show_nat n) = Some n"
proof (induction n rule: show_nat.induct)
  case (1 n)
  then show ?case
    by (subst show_nat.simps) (auto simp: digits_value_append to_digit_digit_char)
qed

lemma show_nat_nonempty: "show_nat n \<noteq> []"
  by (subst show_nat.simps) simp

lemma show_nat_digits: "c \<in> set (show_nat n) \<Longrightarrow> \<exists>d<10. c = digit_char d"
proof (induction n rule: show_nat.induct)
  case (1 n)
  show ?case
  proof (cases "n < 10")
    case True
    with "1.prems" show ?thesis by (subst (asm) show_nat.simps) auto
  next
    case False
    with "1.prems" have "c \<in> set (show_nat (n div 10)) \<or> c = digit_char (n mod 10)"
      by (subst (asm) show_nat.simps) auto
    with "1.IH" [OF False] show ?thesis by (metis mod_less_divisor zero_less_numeral)
  qed
qed

lemma of_char_digit_char: "d < 10 \<Longrightarrow> of_char (digit_char d) = 48 + d"
  by (simp add: digit_char_def)

lemma char_neqI: "(of_char c :: nat) \<noteq> of_char d \<Longrightarrow> c \<noteq> d"
  by auto

lemma show_nat_range: "c \<in> set (show_nat n) \<Longrightarrow> 48 \<le> (of_char c :: nat) \<and> (of_char c :: nat) \<le> 57"
  by (auto dest!: show_nat_digits simp: of_char_digit_char)

lemma unsigned_digits_id: "CHR ''+'' \<notin> set s \<Longrightarrow> unsigned_digits s = s"
  by (auto simp: unsigned_digits_def split: list.splits)

lemma plus_notin_show_nat: "CHR ''+'' \<notin> set (show_nat n)"
  using show_nat_range [of "CHR ''+''" n] by auto

lemma unsigned_digits_show_word: "unsigned_digits (show_word w) = show_word w"
  by (simp add: show_word_def plus_notin_show_nat unsigned_digits_id)

lemma parse_show_word [codec_ok]: "parse_unsigned 10 (show_word w) = Some w"
proof -
  have "unat w < 2 ^ LENGTH('a)" by (rule unsigned_less)
  then show ?thesis
    by (simp add: parse_unsigned_def show_word_def show_nat_nonempty plus_notin_show_nat
        unsigned_digits_id digits_value_show_nat)
qed

lemma parse_unsigned_SomeD: "parse_unsigned r s = Some w \<Longrightarrow> s \<noteq> []"
  by (auto simp: parse_unsigned_def split: if_splits)

lemma show_word_range:
  "c \<in> set (show_word w) \<Longrightarrow> 48 \<le> (of_char c :: nat) \<and> (of_char c :: nat) \<le> 57"
  unfolding show_word_def by (rule show_nat_range)

lemma of_char_hex_digit:
  "n < 16 \<Longrightarrow> of_char (hex_digit 65 n) = (if n < 10 then 48 + n else 55 + n)"
  "n < 16 \<Longrightarrow> of_char (hex_digit 97 n) = (if n < 10 then 48 + n else 87 + n)"
  by (auto simp: hex_digit_def)

lemma hex_digit_not_plus:
  "n < 16 \<Longrightarrow> hex_digit 65 n \<noteq> CHR ''+''"
  "n < 16 \<Longrightarrow> hex_digit 97 n \<noteq> CHR ''+''"
  by (rule char_neqI, simp add: of_char_hex_digit)+

lemma hex_halves: "(unat (b :: u8)) div 16 < 16" "unat b mod 16 < 16"
  using unat_byte_less [of b] by auto

lemma parse_hex2_upper [codec_ok]: "parse_unsigned 16 (hex2_upper b) = Some (b :: u8)"
  using hex_halves [of b] hex_digit_not_plus unat_byte_less [of b]
  by (simp add: parse_unsigned_def hex2_upper_def unsigned_digits_def to_digit_hex_digit)

lemma parse_hex2_lower [codec_ok]: "parse_unsigned 16 (hex2_lower b) = Some (b :: u8)"
  using hex_halves [of b] hex_digit_not_plus unat_byte_less [of b]
  by (simp add: parse_unsigned_def hex2_lower_def unsigned_digits_def to_digit_hex_digit)

lemma length_hex2 [simp]: "length (hex2_upper b) = 2" "length (hex2_lower b) = 2"
  by (simp_all add: hex2_upper_def hex2_lower_def)

end
