(* ===== verification/Errors.thy ===== *)
theory Errors
  imports Text_Ops
begin

text \<open>
  The error type of the whole stack (\<open>crates/core/src/error.rs\<close>): the capped byte snapshot
  \<open>SmallHex\<close> with its two renderings, the error enum \<open>VfsError\<close> with every variant, field and
  message, and \<open>io_err\<close>. An \<open>std::io::Error\<close> is what the sources build or inspect of one: an operating
  system error, an \<open>InvalidInput\<close> error with a message, or a \<open>VfsError\<close> boxed by
  \<open>io::Error::other\<close>, so the two types are mutually recursive.
\<close>

section \<open>SmallHex\<close>

record small_hex =
  sh_buf :: bytes
  sh_len :: u8

definition small_hex_cap :: nat where
  "small_hex_cap = 16"

definition small_hex_new :: "bytes \<Rightarrow> small_hex" where
  "small_hex_new bs =
     (let n = min (length bs) small_hex_cap
      in \<lparr>sh_buf = take n bs @ drop n (replicate small_hex_cap 0), sh_len = word_of_nat n\<rparr>)"

definition small_hex_as_bytes :: "small_hex \<Rightarrow> bytes" where
  "small_hex_as_bytes h = prefix_or_empty (unat (sh_len h)) (sh_buf h)"

definition small_hex_is_empty :: "small_hex \<Rightarrow> bool" where
  "small_hex_is_empty h \<longleftrightarrow> sh_len h = 0"

text \<open>\<open>impl Debug\<close>: the bytes in hexadecimal with no separator; \<open>impl Display\<close>: with one space
  between two bytes and none before the first.\<close>

definition small_hex_debug :: "small_hex \<Rightarrow> string" where
  "small_hex_debug h = ''SmallHex('' @ concat (map hex2_lower (small_hex_as_bytes h)) @ '')''"

fun hex_display_loop :: "bool \<Rightarrow> bytes \<Rightarrow> string" where
  "hex_display_loop first [] = []"
| "hex_display_loop first (b # bs) =
     (if first then [] else '' '') @ hex2_lower b @ hex_display_loop False bs"

definition small_hex_display :: "small_hex \<Rightarrow> string" where
  "small_hex_display h = hex_display_loop True (small_hex_as_bytes h)"

section \<open>VfsError\<close>

datatype vfs_error =
    Io string io_error
  | Decode string u64 string small_hex
  | Unrecognized string u64 small_hex
  | Ambiguous "string list"
  | Bootstrap string string
  | Unsupported string string
  | Budget string u64
  | NeedCredentials string string
  | OutOfRange string u64 u64 u64
and io_error =
    IoOs string
  | IoInvalidInput string
  | IoOther vfs_error

type_synonym 'a vfs_result = "vfs_error + 'a"

text \<open>\<open>io_err(op)\<close> wraps an I/O error under an operation label.\<close>

definition io_err :: "string \<Rightarrow> io_error \<Rightarrow> vfs_error" where
  "io_err op e = Io op e"

section \<open>Messages\<close>

text \<open>The messages that the \<open>#[error("...")]\<close> attributes give. An I/O error prints what it carries:
  the system's text, the message it was built with, or the error boxed in it.

  \<open>{candidates:?}\<close> is the \<open>Debug\<close> form of a list of names: a name is quoted, and of ASCII the quote,
  the backslash and the control characters are escaped; other bytes are printed as they are, which
  is what \<open>Debug\<close> does for printable characters.\<close>

definition debug_char :: "char \<Rightarrow> string" where
  "debug_char c =
     (let n = of_char c :: nat
      in if n = 34 \<or> n = 92 then [CHR 0x5C, c]
         else if n = 0 then [CHR 0x5C, CHR ''0'']
         else if n = 9 then [CHR 0x5C, CHR ''t'']
         else if n = 10 then [CHR 0x5C, CHR ''n'']
         else if n = 13 then [CHR 0x5C, CHR ''r'']
         else if n < 16 then [CHR 0x5C, CHR ''u'', CHR 0x7B, hex_digit 97 n, CHR 0x7D]
         else if n < 32 \<or> n = 127 then [CHR 0x5C, CHR ''u'', CHR 0x7B] @ hex2_lower (char_byte c) @ [CHR 0x7D]
         else [c])"

definition debug_str :: "string \<Rightarrow> string" where
  "debug_str s = [CHR 0x22] @ concat (map debug_char s) @ [CHR 0x22]"

fun debug_names :: "bool \<Rightarrow> string list \<Rightarrow> string" where
  "debug_names first [] = []"
| "debug_names first (s # ss) = (if first then [] else '', '') @ debug_str s @ debug_names False ss"

fun vfs_error_display :: "vfs_error \<Rightarrow> string" and io_error_display :: "io_error \<Rightarrow> string" where
  "vfs_error_display (Io op source) = ''I/O during '' @ op @ '': '' @ io_error_display source"
| "vfs_error_display (Decode layer offset detail bs) =
     ''decode failed in '' @ layer @ '' at offset '' @ show_word offset @ '': '' @ detail
       @ '' (bytes: '' @ small_hex_display bs @ '')''"
| "vfs_error_display (Unrecognized at offset bs) =
     ''unrecognized data at '' @ at @ '' offset '' @ show_word offset
       @ '' (bytes: '' @ small_hex_display bs @ '')''"
| "vfs_error_display (Ambiguous candidates) =
     ''ambiguous detection: ['' @ debug_names True candidates @ '']''"
| "vfs_error_display (Bootstrap stage detail) =
     ''bootstrap failed at '' @ stage @ '': '' @ detail"
| "vfs_error_display (Unsupported layer scheme) = ''unsupported '' @ layer @ '': '' @ scheme"
| "vfs_error_display (Budget cap limit) =
     ''budget exceeded: '' @ cap @ '' (limit '' @ show_word limit @ '')''"
| "vfs_error_display (NeedCredentials scheme target) =
     ''credentials required for '' @ scheme @ '' ('' @ target @ '')''"
| "vfs_error_display (OutOfRange what offset len bound) =
     what @ '': offset '' @ show_word offset @ ''+'' @ show_word len @ '' past bound '' @ show_word bound"
| "io_error_display (IoOs text) = text"
| "io_error_display (IoInvalidInput msg) = msg"
| "io_error_display (IoOther e) = vfs_error_display e"

section \<open>The snapshot is the first sixteen bytes\<close>

lemma small_hex_new_len: "unat (sh_len (small_hex_new bs)) = min (length bs) small_hex_cap"
  by (simp add: small_hex_new_def small_hex_cap_def unat_of_nat Let_def)

lemma small_hex_new_buf_length: "length (sh_buf (small_hex_new bs)) = small_hex_cap"
  by (simp add: small_hex_new_def Let_def)

lemma small_hex_as_bytes_new: "small_hex_as_bytes (small_hex_new bs) = take small_hex_cap bs"
proof -
  have "unat (sh_len (small_hex_new bs)) \<le> length (sh_buf (small_hex_new bs))"
    by (simp add: small_hex_new_len small_hex_new_buf_length)
  then have "small_hex_as_bytes (small_hex_new bs)
      = take (min (length bs) small_hex_cap) (sh_buf (small_hex_new bs))"
    by (simp add: small_hex_as_bytes_def slices small_hex_new_len)
  also have "\<dots> = take small_hex_cap bs"
    by (simp add: small_hex_new_def Let_def min_def)
  finally show ?thesis .
qed

lemma small_hex_new_take: "small_hex_new (take 16 bs) = small_hex_new bs"
  by (simp add: small_hex_new_def small_hex_cap_def Let_def min_def)

lemma small_hex_is_empty_new: "small_hex_is_empty (small_hex_new bs) \<longleftrightarrow> bs = []"
proof -
  have "small_hex_is_empty (small_hex_new bs) \<longleftrightarrow> unat (sh_len (small_hex_new bs)) = 0"
    by (simp add: small_hex_is_empty_def unat_eq_0)
  then show ?thesis by (auto simp: small_hex_new_len small_hex_cap_def min_def)
qed

lemma hex2_lower_inject: "hex2_lower a = hex2_lower b \<longleftrightarrow> a = b"
  by (metis option.inject parse_hex2_lower)

lemma hex_display_loop_inject: "hex_display_loop first xs = hex_display_loop first ys \<longleftrightarrow> xs = ys"
proof (induction xs arbitrary: first ys)
  case Nil
  show ?case by (cases ys) (auto simp: hex2_lower_def)
next
  case (Cons x xs)
  show ?case
  proof (cases ys)
    case (Cons y ys')
    with Cons.IH [of False ys'] show ?thesis by (auto simp: append_eq_append_conv hex2_lower_inject)
  qed (simp add: hex2_lower_def)
qed

lemma hex_display_loop_length:
  "length (hex_display_loop first bs)
     = (if bs = [] then 0 else 3 * length bs - (if first then 1 else 0))"
  by (induction first bs rule: hex_display_loop.induct) auto

end
