(* ===== verification/Percent.thy ===== *)
theory Percent
  imports Errors
begin

text \<open>
  The percent encoding of \<open>crates/core/src/uri.rs\<close>, the codec's error constructor, and the
  interfaces of a text codec.

  \<open>pct_decode_loop\<close> is the decoder's \<open>while\<close> loop over an index and an output buffer;
  \<open>pct_decode_spec\<close> decodes the remaining suffix and specifies it, and the two are proved equal.
  The locale \<open>text_codec\<close> states what a pair of an encoder and a decoder promises; \<open>piece_codec\<close>
  adds that no encoding contains a separator, and proves once that joined encodings split and decode
  back. Both are interpreted for the percent encoding of path components here, and by the token
  and layer codecs later.
\<close>

section \<open>Interfaces\<close>

locale text_codec =
  fixes enc :: "'a \<Rightarrow> string" and dec :: "string \<Rightarrow> vfs_error + 'a" and ok :: "'a \<Rightarrow> bool"
  assumes dec_enc: "ok a \<Longrightarrow> dec (enc a) = Inr a"
begin

lemma enc_inj: "ok a \<Longrightarrow> ok b \<Longrightarrow> enc a = enc b \<Longrightarrow> a = b"
  by (metis dec_enc sum.inject(2))

end

locale piece_codec = text_codec enc dec ok
  for enc :: "'a \<Rightarrow> string" and dec :: "string \<Rightarrow> vfs_error + 'a" and ok :: "'a \<Rightarrow> bool" +
  fixes sep :: char
  assumes sep_notin_enc: "ok a \<Longrightarrow> sep \<notin> set (enc a)"
begin

lemma split_pieces:
  "xs \<noteq> [] \<Longrightarrow> (\<And>x. x \<in> set xs \<Longrightarrow> ok x) \<Longrightarrow>
     split_on sep (join_with sep (map enc xs)) = map enc xs"
  by (rule split_on_join) (auto simp: sep_notin_enc)

lemma collect_pieces:
  assumes "\<And>x. x \<in> set xs \<Longrightarrow> ok x"
  shows "res_collect dec (map enc xs) = Inr xs"
  using assms res_collect_map [of xs dec enc id] by (simp add: dec_enc)

lemma collect_split_pieces:
  "xs \<noteq> [] \<Longrightarrow> (\<And>x. x \<in> set xs \<Longrightarrow> ok x) \<Longrightarrow>
     res_collect dec (split_on sep (join_with sep (map enc xs))) = Inr xs"
  by (simp add: split_pieces collect_pieces)

end

section \<open>Errors of the codec\<close>

definition uri_err :: "string \<Rightarrow> string \<Rightarrow> vfs_error" where
  "uri_err detail ctx = Decode ''locator-uri'' 0 detail (small_hex_new (as_bytes ctx))"

section \<open>Encoding\<close>

definition unreserved :: "u8 \<Rightarrow> bool" where
  "unreserved b \<longleftrightarrow>
     (48 \<le> b \<and> b \<le> 57) \<or> (65 \<le> b \<and> b \<le> 90) \<or> (97 \<le> b \<and> b \<le> 122)
       \<or> b = 46 \<or> b = 95 \<or> b = 45"

fun pct_encode :: "bytes \<Rightarrow> string" where
  "pct_encode [] = []"
| "pct_encode (b # bs) =
     (if unreserved b then [byte_char b] else CHR ''%'' # hex2_upper b) @ pct_encode bs"

section \<open>Decoding\<close>

text \<open>\<open>core::str::from_utf8\<close> on two bytes: two ASCII bytes, or one two-byte sequence.\<close>

definition utf8_valid2 :: "u8 \<Rightarrow> u8 \<Rightarrow> bool" where
  "utf8_valid2 a b \<longleftrightarrow>
     (a < 128 \<and> b < 128) \<or> (194 \<le> a \<and> a \<le> 223 \<and> 128 \<le> b \<and> b \<le> 191)"

text \<open>The escape after a \<open>%\<close>: the two bytes, the hexadecimal value they give.\<close>

definition pct_escape :: "string \<Rightarrow> bytes option \<Rightarrow> u8 vfs_result" where
  "pct_escape s hex =
     res_bind (ok_or (uri_err ''truncated percent escape'' s) hex)
       (\<lambda>h. if \<not> utf8_valid2 (h ! 0) (h ! 1) then Inl (uri_err ''non-ascii percent escape'' s)
             else ok_or (uri_err ''bad percent hex'' s) (parse_unsigned 16 (of_bytes h)))"

function pct_decode_loop :: "string \<Rightarrow> bytes \<Rightarrow> nat \<Rightarrow> bytes \<Rightarrow> bytes vfs_result" where
  "pct_decode_loop s b i out =
     (case list_get i b of
        None \<Rightarrow> Inr out
      | Some c \<Rightarrow>
          if c = 37 then
            (case pct_escape s (slice_get (i + 1) (i + 3) b) of
               Inl e \<Rightarrow> Inl e
             | Inr v \<Rightarrow> pct_decode_loop s b (i + 3) (out @ [v]))
          else pct_decode_loop s b (i + 1) (out @ [c]))"
  by pat_completeness auto
termination
  by (relation "measure (\<lambda>(s, b, i, out). length b - i)") (auto simp: list_get_def split: if_splits)

declare pct_decode_loop.simps [simp del]

definition pct_decode :: "string \<Rightarrow> bytes vfs_result" where
  "pct_decode s = pct_decode_loop s (as_bytes s) 0 []"

section \<open>The loop decodes the remaining suffix\<close>

fun pct_decode_spec :: "string \<Rightarrow> bytes \<Rightarrow> bytes vfs_result" where
  "pct_decode_spec s [] = Inr []"
| "pct_decode_spec s (c # cs) =
     (if c = 37 then
        res_bind (pct_escape s (slice_get 0 2 cs))
          (\<lambda>v. res_bind (pct_decode_spec s (drop 2 cs)) (\<lambda>vs. Inr (v # vs)))
      else res_bind (pct_decode_spec s cs) (\<lambda>vs. Inr (c # vs)))"

lemma slice_get_shift: "slice_get (k + a) (k + b) xs = slice_get a b (drop k xs)" if "k \<le> length xs"
  using that by (auto simp: slice_get_def add.commute)

lemma pct_decode_loop_spec:
  "pct_decode_loop s b i out = res_bind (pct_decode_spec s (drop i b)) (\<lambda>vs. Inr (out @ vs))"
proof (induction s b i out rule: pct_decode_loop.induct)
  case (1 s b i out)
  show ?case
  proof (cases "i < length b")
    case False
    then show ?thesis by (simp add: pct_decode_loop.simps [of s b i] list_get_def)
  next
    case True
    define c cs where "c = b ! i" and "cs = drop (Suc i) b"
    have d: "drop i b = c # cs" using True by (simp add: c_def cs_def Cons_nth_drop_Suc)
    have g: "list_get i b = Some c" using True by (simp add: list_get_def c_def)
    have s2: "slice_get (i + 1) (i + 3) b = slice_get 0 2 cs"
      using slice_get_shift [of "Suc i" b 0 2] True by (simp add: cs_def numeral_3_eq_3)
    have d3: "drop (i + 3) b = drop 2 cs" and d1: "drop (Suc i) b = cs"
      by (simp_all add: cs_def numeral_3_eq_3)
    show ?thesis
    proof (cases "c = 37")
      case False
      with 1 g have "pct_decode_loop s b (i + 1) (out @ [c])
          = res_bind (pct_decode_spec s cs) (\<lambda>vs. Inr ((out @ [c]) @ vs))"
        by (simp add: d1)
      with False g d show ?thesis
        by (cases "pct_decode_spec s cs") (simp_all add: pct_decode_loop.simps [of s b i] d1)
    next
      case c37: True
      show ?thesis
      proof (cases "pct_escape s (slice_get 0 2 cs)")
        case (Inl e)
        with c37 g d s2 show ?thesis by (simp add: pct_decode_loop.simps [of s b i])
      next
        case (Inr v)
        with 1 g c37 s2 have "pct_decode_loop s b (i + 3) (out @ [v])
            = res_bind (pct_decode_spec s (drop 2 cs)) (\<lambda>vs. Inr ((out @ [v]) @ vs))"
          by (simp add: d3)
        with Inr c37 g d s2 show ?thesis
          by (cases "pct_decode_spec s (drop 2 cs)") (simp_all add: pct_decode_loop.simps [of s b i])
      qed
    qed
  qed
qed

lemma pct_decode_eq_spec: "pct_decode s = pct_decode_spec s (as_bytes s)"
  by (cases "pct_decode_spec s (as_bytes s)") (simp_all add: pct_decode_def pct_decode_loop_spec)

section \<open>Round trip and character set\<close>

lemma of_bytes_simps [simp]: "of_bytes [] = []" "of_bytes (b # bs) = byte_char b # of_bytes bs"
  by (simp_all add: of_bytes_def)

lemma as_bytes_simps [simp]:
  "as_bytes [] = []" "as_bytes (c # cs) = char_byte c # as_bytes cs"
  "as_bytes (s @ t) = as_bytes s @ as_bytes t" "length (as_bytes s) = length s"
  by (simp_all add: as_bytes_def)

lemma char_byte_percent [simp]: "char_byte CHR ''%'' = 37"
  by (simp add: char_byte_def)

lemma unreserved_not_percent: "unreserved b \<Longrightarrow> b \<noteq> 37"
  by (auto simp: unreserved_def word_le_nat_alt)

lemma ascii_char_byte_less: "(of_char c :: nat) < 128 \<Longrightarrow> char_byte c < 128"
  by (simp add: word_less_nat_alt unat_char_byte)

lemma hex_digit_ascii: "n < 16 \<Longrightarrow> char_byte (hex_digit 65 n) < 128"
  by (rule ascii_char_byte_less) (simp add: of_char_hex_digit)

lemma pct_escape_hex2 [codec_ok]: "pct_escape s (slice_get 0 2 (as_bytes (hex2_upper b) @ cs)) = Inr b"
proof -
  have "slice_get 0 2 (as_bytes (hex2_upper b) @ cs) = Some (as_bytes (hex2_upper b))"
    by (simp add: slice_get_def)
  moreover have "utf8_valid2 (as_bytes (hex2_upper b) ! 0) (as_bytes (hex2_upper b) ! 1)"
    using hex_halves [of b] by (simp add: hex2_upper_def utf8_valid2_def hex_digit_ascii)
  ultimately show ?thesis by (simp add: pct_escape_def codec_ok)
qed

lemma pct_decode_spec_encode: "pct_decode_spec s (as_bytes (pct_encode bs)) = Inr bs"
proof (induction bs)
  case (Cons b bs)
  show ?case
  proof (cases "unreserved b")
    case True
    with Cons.IH show ?thesis by (simp add: unreserved_not_percent)
  next
    case False
    have "drop 2 (as_bytes (hex2_upper b) @ as_bytes (pct_encode bs)) = as_bytes (pct_encode bs)"
      by simp
    with False Cons.IH show ?thesis
      by (simp add: pct_escape_hex2 del: drop_append)
  qed
qed simp

lemma pct_decode_encode [codec_ok]: "pct_decode (pct_encode bs) = Inr bs"
  by (simp add: pct_decode_eq_spec pct_decode_spec_encode)

text \<open>Every character of an encoding is alphanumeric, one of \<open>._-\<close>, or \<open>%\<close>.\<close>

definition value_char :: "char \<Rightarrow> bool" where
  "value_char c \<longleftrightarrow> unreserved (char_byte c) \<or> c = CHR ''%''"

lemma unreserved_hex_digit: "n < 16 \<Longrightarrow> unreserved (char_byte (hex_digit 65 n))"
  by (auto simp: unreserved_def word_le_nat_alt unat_char_byte of_char_hex_digit)

lemma pct_encode_value_chars: "c \<in> set (pct_encode bs) \<Longrightarrow> value_char c"
proof (induction bs)
  case (Cons b bs)
  then show ?case
    using hex_halves [of b]
    by (auto simp: value_char_def hex2_upper_def unreserved_hex_digit split: if_splits)
qed simp

lemma value_char_not_structural:
  "value_char c \<Longrightarrow> c \<noteq> CHR ''|'' \<and> c \<noteq> CHR '':'' \<and> c \<noteq> CHR '','' \<and> c \<noteq> CHR ''/''"
  by (auto simp: value_char_def unreserved_def char_byte_def word_le_nat_alt)

lemma pct_encode_clean [charset]:
  "CHR ''|'' \<notin> set (pct_encode bs)" "CHR '':'' \<notin> set (pct_encode bs)"
  "CHR '','' \<notin> set (pct_encode bs)" "CHR ''/'' \<notin> set (pct_encode bs)"
  using pct_encode_value_chars value_char_not_structural by blast+

interpretation component: piece_codec pct_encode pct_decode "\<lambda>_. True" "CHR ''/''"
  by unfold_locales (auto simp: codec_ok charset)

end
