(* ===== verification/Image_Source.thy ===== *)
theory Image_Source
  imports Errors
begin

text \<open>
  The universal byte edge (\<open>crates/core/src/source.rs\<close>): \<open>SourceId\<close>, the extent map, the lent
  view, the trait \<open>ImageSource\<close> and \<open>read_exact_at\<close>.

  A \<open>dyn ImageSource\<close> is a record with one field per required or overridable method. A read takes
  the offset and the caller's buffer and gives the result with the buffer as the call left it, so
  that bytes beyond the ones read are visible too. The trait is \<open>&self\<close> over evidence that nothing
  writes: a read is a function of its arguments. \<open>default_source\<close> carries the provided methods.

  The locale \<open>fitting_source\<close> is what the type of a read makes callers expect. The locale
  \<open>byte_source\<close> is a source of a byte string whose reads may be short but make progress, which is
  what one positioned read of the operating system promises; \<open>filling_source\<close> adds that reads up to
  some size fill the buffer as far as there are bytes, which is how the trait documents \<open>read_at\<close>.
\<close>

section \<open>SourceId\<close>

datatype source_id = SourceId u64

definition source_id_root :: source_id where
  "source_id_root = SourceId 0"

definition source_id_new :: "u64 \<Rightarrow> source_id" where
  "source_id_new n = SourceId n"

fun source_id_get :: "source_id \<Rightarrow> u64" where
  "source_id_get (SourceId n) = n"

definition source_id_default :: source_id where
  "source_id_default = source_id_root"

instantiation source_id :: default
begin

definition default_source_id :: source_id where
  "default_source_id = source_id_default"

instance ..

end

section \<open>Lent views\<close>

text \<open>\<open>SourceView\<close>: a borrow of a mapped region, or a cache block with the range that is valid
  in it. \<open>Deref\<close> falls back to the empty slice on a range outside the block.\<close>

datatype source_view =
    Mmap bytes
  | Block bytes nat nat

fun view_deref :: "source_view \<Rightarrow> bytes" where
  "view_deref (Mmap s) = s"
| "view_deref (Block arc a b) = (case slice_get a b arc of None \<Rightarrow> [] | Some s \<Rightarrow> s)"

section \<open>Extents\<close>

record extent =
  ext_offset :: u64
  ext_len :: u64

datatype extents = Extents "extent list"

text \<open>The derived \<open>Default\<close>: no runs.\<close>

definition extents_default :: extents where
  "extents_default = Extents []"

instantiation extents :: default
begin

definition default_extents :: extents where
  "default_extents = extents_default"

instance ..

end

definition extents_dense :: "u64 \<Rightarrow> extents" where
  "extents_dense len =
     (if len = 0 then Extents [] else Extents [\<lparr>ext_offset = 0, ext_len = len\<rparr>])"

definition extents_from_runs :: "extent list \<Rightarrow> extents" where
  "extents_from_runs runs = Extents runs"

fun extents_runs :: "extents \<Rightarrow> extent list" where
  "extents_runs (Extents runs) = runs"

definition allocated_len :: "extents \<Rightarrow> u64" where
  "allocated_len e = foldl (\<lambda>acc r. saturating_add acc (ext_len r)) 0 (extents_runs e)"

definition extents_is_empty :: "extents \<Rightarrow> bool" where
  "extents_is_empty e \<longleftrightarrow> extents_runs e = []"

lemma extents_runs_from_runs [simp]: "extents_runs (extents_from_runs rs) = rs"
  by (simp add: extents_from_runs_def)

lemma allocated_len_fold:
  "unat (foldl (\<lambda>acc r. saturating_add acc (ext_len r)) a rs)
     = min (unat a + sum_list (map (unat \<circ> ext_len) rs)) (2 ^ 64 - 1)"
proof (induction rs arbitrary: a)
  case Nil
  have "unat a < 2 ^ 64" using unsigned_less [of a] by simp
  then show ?case by simp
next
  case (Cons r rs)
  then show ?case by (simp add: unat_saturating_add)
qed

section \<open>The trait\<close>

record image_source =
  src_len :: u64
  src_read_at :: "u64 \<Rightarrow> bytes \<Rightarrow> nat vfs_result \<times> bytes"
  src_extents :: extents
  src_view :: "u64 \<Rightarrow> nat \<Rightarrow> source_view option"
  src_id :: source_id

type_synonym dyn_source = image_source

definition src_is_empty :: "image_source \<Rightarrow> bool" where
  "src_is_empty s \<longleftrightarrow> src_len s = 0"

text \<open>A source that overrides none of the provided methods.\<close>

definition default_source :: "u64 \<Rightarrow> (u64 \<Rightarrow> bytes \<Rightarrow> nat vfs_result \<times> bytes) \<Rightarrow> image_source" where
  "default_source len read =
     \<lparr>src_len = len, src_read_at = read, src_extents = extents_dense len,
      src_view = (\<lambda>_ _. None), src_id = source_id_root\<rparr>"

lemma default_source_simps [simp]:
  "src_len (default_source n r) = n"
  "src_read_at (default_source n r) = r"
  "src_extents (default_source n r) = extents_dense n"
  "src_view (default_source n r) = (\<lambda>_ _. None)"
  "src_id (default_source n r) = source_id_root"
  by (simp_all add: default_source_def)

definition read_exact_at :: "image_source \<Rightarrow> u64 \<Rightarrow> bytes \<Rightarrow> unit vfs_result \<times> bytes" where
  "read_exact_at src offset buf =
     (case src_read_at src offset buf of
        (Inl e, buf') \<Rightarrow> (Inl e, buf')
      | (Inr got, buf') \<Rightarrow>
          if got = length buf then (Inr (), buf')
          else (Inl (OutOfRange ''read_exact_at'' offset (word_of_nat (length buf)) (src_len src)),
                buf'))"

section \<open>The contract\<close>

text \<open>What a read of \<open>content\<close> at \<open>off\<close> gives: how many bytes, and the buffer.\<close>

definition read_count :: "bytes \<Rightarrow> nat \<Rightarrow> nat \<Rightarrow> nat" where
  "read_count content off want = min want (length content - off)"

definition read_into :: "bytes \<Rightarrow> nat \<Rightarrow> bytes \<Rightarrow> bytes" where
  "read_into content off buf =
     take (read_count content off (length buf)) (drop off content)
       @ drop (read_count content off (length buf)) buf"

lemma length_read_into [simp]: "length (read_into content off buf) = length buf"
  by (auto simp: read_into_def read_count_def)

text \<open>A read of \<open>n\<close> bytes, as many as there are or fewer, and which \<open>n\<close> there can be: a read gives no
  byte only when there is none to give.\<close>

definition read_part :: "bytes \<Rightarrow> nat \<Rightarrow> nat \<Rightarrow> bytes \<Rightarrow> bytes" where
  "read_part content off n buf = take n (drop off content) @ drop n buf"

definition read_allowed :: "bytes \<Rightarrow> nat \<Rightarrow> nat \<Rightarrow> nat \<Rightarrow> bool" where
  "read_allowed content off want n \<longleftrightarrow>
     n \<le> read_count content off want \<and> (n = 0 \<longrightarrow> read_count content off want = 0)"

lemma read_part_all: "read_part content off (read_count content off (length buf)) buf = read_into content off buf"
  by (simp add: read_part_def read_into_def)

lemma read_part_0 [simp]: "read_part content off 0 buf = buf"
  by (simp add: read_part_def)

lemma length_read_part [simp]:
  "n \<le> read_count content off (length buf) \<Longrightarrow> length (read_part content off n buf) = length buf"
  by (auto simp: read_part_def read_count_def)

lemma read_part_prefix:
  "n \<le> read_count content off (length buf) \<Longrightarrow> take n (read_part content off n buf) = take n (drop off content)"
  by (auto simp: read_part_def read_count_def)

lemma read_allowed_le: "read_allowed content off want n \<Longrightarrow> n \<le> read_count content off want"
  by (simp add: read_allowed_def)

lemma read_allowed_all [simp]: "read_allowed content off want (read_count content off want)"
  by (simp add: read_allowed_def)

lemma read_allowed_past_end: "length content \<le> off \<Longrightarrow> read_allowed content off want n \<longleftrightarrow> n = 0"
  by (auto simp: read_allowed_def read_count_def)

lemma read_allowed_0: "read_allowed content off (length buf) 0 \<Longrightarrow> buf = [] \<or> length content \<le> off"
  by (cases buf) (auto simp: read_allowed_def read_count_def min_def split: if_splits)

text \<open>The least that a read promises: the buffer keeps its length, and no more bytes are counted than it
  holds. Callers slice their buffers by the count.\<close>

definition read_fits :: "bytes \<Rightarrow> 'e + nat \<Rightarrow> bytes \<Rightarrow> bool" where
  "read_fits buf res buf' \<longleftrightarrow> length buf' = length buf \<and> (\<forall>n. res = Inr n \<longrightarrow> n \<le> length buf)"

lemma read_fits_simps [simp]:
  "read_fits buf (Inl e) buf' \<longleftrightarrow> length buf' = length buf"
  "read_fits buf (Inr n) buf' \<longleftrightarrow> length buf' = length buf \<and> n \<le> length buf"
  by (simp_all add: read_fits_def)

lemma read_fits_length: "read_fits buf res buf' \<Longrightarrow> length buf' = length buf"
  by (simp add: read_fits_def)

locale fitting_source =
  fixes src :: image_source
  assumes source_fits: "src_read_at src off buf = (res, buf') \<Longrightarrow> read_fits buf res buf'"

text \<open>A source of the bytes \<open>content\<close>, whose reads may be short.\<close>

locale byte_source =
  fixes src :: image_source and content :: bytes
  assumes content_len: "length content = unat (src_len src)"
    and read_chunk: "src_read_at src off buf = (Inr n, buf') \<Longrightarrow>
      read_allowed content (unat off) (length buf) n \<and> buf' = read_part content (unat off) n buf"
    and read_keeps_length: "src_read_at src off buf = (res, buf') \<Longrightarrow> length buf' = length buf"
begin

lemma read_bound: "src_read_at src off buf = (Inr n, buf') \<Longrightarrow> n \<le> length buf"
  by (auto dest!: read_chunk read_allowed_le simp: read_count_def)

text \<open>A full buffer lies in the content.\<close>

lemma read_all_bytes:
  assumes "src_read_at src off buf = (Inr (length buf), buf')"
  shows "buf' = take (length buf) (drop (unat off) content)"
    and "buf = [] \<or> unat off + length buf \<le> length content"
proof -
  from read_chunk [OF assms] have le: "length buf \<le> length content - unat off"
    and b: "buf' = read_part content (unat off) (length buf) buf"
    by (auto dest: read_allowed_le simp: read_count_def)
  from b show "buf' = take (length buf) (drop (unat off) content)"
    by (simp add: read_part_def)
  from le show "buf = [] \<or> unat off + length buf \<le> length content"
    by (cases buf) auto
qed

lemma read_exact_eq:
  assumes "src_read_at src off buf = (Inr n, buf0)"
  shows "read_exact_at src off buf =
    (if n = length buf then (Inr (), take (length buf) (drop (unat off) content))
     else (Inl (OutOfRange ''read_exact_at'' off (word_of_nat (length buf)) (src_len src)), buf0))"
  using read_all_bytes(1) [of off buf buf0] assms by (simp add: read_exact_at_def)

end

text \<open>The reads of at most \<open>lim\<close> bytes are never short of what there is.\<close>

locale filling_source = byte_source src content for src content +
  fixes lim :: nat
  assumes read_full: "src_read_at src off buf = (Inr n, buf') \<Longrightarrow> length buf \<le> lim \<Longrightarrow>
    read_count content (unat off) (length buf) \<le> n"
begin

lemma read_ok:
  assumes "src_read_at src off buf = (Inr n, buf')" and "length buf \<le> lim"
  shows "n = read_count content (unat off) (length buf) \<and> buf' = read_into content (unat off) buf"
proof -
  from read_chunk [OF assms(1)] read_full [OF assms]
  have "n = read_count content (unat off) (length buf)" by (simp add: read_allowed_def)
  with read_chunk [OF assms(1)] show ?thesis by (simp add: read_part_all)
qed

lemma read_all_iff:
  assumes "src_read_at src off buf = (Inr n, buf')" and "length buf \<le> lim"
  shows "n = length buf \<longleftrightarrow> buf = [] \<or> unat off + length buf \<le> length content"
  using read_ok [OF assms] by (cases buf) (auto simp: read_count_def min_def)

end

sublocale byte_source \<subseteq> fits: fitting_source src
proof
  fix off buf res buf'
  assume r: "src_read_at src off buf = (res, buf')"
  then show "read_fits buf res buf'"
    using read_keeps_length [OF r] read_bound [of off buf _ buf'] by (auto simp: read_fits_def)
qed

end
