(* ===== verification/Encryption.thy ===== *)
theory Encryption
  imports Image_Source
begin

text \<open>
  The encryption contract (\<open>crates/core/src/encryption.rs\<close>): the schemes, the credentials, the
  injected \<open>CredentialSource\<close>, the secure default that offers nothing, and \<open>EncryptionLayer\<close>.
  A trait object is a record with one field per method. The \<open>findings\<close> methods, which exist under
  a feature of the external report crate only, are left out.
\<close>

datatype encryption_scheme =
    Bitlocker
  | Luks1
  | Luks2
  | FileVault
  | ApfsEncrypted
  | VeraCrypt
  | IosBackup

datatype credential =
    Password string
  | RecoveryKey string
  | KeyBytes bytes
  | KeyFile bytes

record credential_source =
  cs_credentials_for :: "encryption_scheme \<Rightarrow> string \<Rightarrow> credential list"

definition no_credentials :: credential_source where
  "no_credentials = \<lparr>cs_credentials_for = (\<lambda>_ _. [])\<rparr>"

record encryption_layer =
  el_scheme :: encryption_scheme
  el_open :: "credential_source \<Rightarrow> dyn_source vfs_result"

lemma no_credentials_offers_nothing: "cs_credentials_for no_credentials scheme target = []"
  by (simp add: no_credentials_def)

end
