(* ===== verification/Volume.thy ===== *)
theory Volume
  imports Image_Source
begin

text \<open>
  The volume and archive contracts (\<open>crates/core/src/volume.rs\<close>, \<open>crates/core/src/archive.rs\<close>):
  partitioning schemes with the volumes they expose, and what peeling an archive gives, one decoded
  stream or a member table.
\<close>

section \<open>Volume systems\<close>

datatype volume_scheme = Mbr | Gpt | Apm | Vss | ApfsContainer | Lvm

datatype volume_kind = Partition | ShadowStore | Snapshot | UnallocatedVolume

record volume_desc =
  vd_index :: nat
  vd_kind :: volume_kind
  vd_start :: u64
  vd_len :: u64
  vd_type_hint :: "string option"
  vd_label :: "string option"

record volume_system =
  vs_scheme :: volume_scheme
  vs_volumes :: "volume_desc list"
  vs_open_volume :: "nat \<Rightarrow> dyn_source vfs_result"

section \<open>Archives\<close>

record member =
  mem_name :: bytes
  mem_source :: dyn_source

datatype archive_contents = ArchiveStream dyn_source | ArchiveMembers "member list"

end
