(* ===== verification/Fs.thy ===== *)
theory Fs
  imports Image_Source
begin

text \<open>
  The filesystem contract and its metadata (\<open>crates/core/src/fs.rs\<close>): stream, node and run
  vocabularies, timestamps with provenance, the metadata records, the owned streams, and the trait
  \<open>FileSystem\<close>.

  Two types of the external crate \<open>forensicnomicon-core\<close> are re-exported here. \<open>FsKind\<close> is the
  type parameter \<open>'k\<close>. \<open>FileId\<close> is a non-exhaustive enum, and what the sources know of it is the
  match in \<open>uri.rs\<close>: six variants, whose field widths are those the parser casts to, and a wildcard
  for a variant of a later version, here \<open>FutureFileId\<close> with an arbitrary payload.

  An owned stream is the finite list of the items its iterator gives; \<open>stream_next\<close> is
  \<open>Iterator::next\<close>. \<open>i128\<close>, \<open>i16\<close> values keep their width as words.
\<close>

section \<open>Identity\<close>

datatype file_id =
    NtfsRef u64 u16
  | ExtInode u64 u32
  | ApfsOid u64 u64
  | FatDirEntry u32 u16
  | IsoExtent u32
  | OpaqueId u64
  | FutureFileId nat

datatype stream_id = DefaultStream | NamedStream u16 | ResourceFork | XattrStream u16 | SlackStream

datatype stream_kind =
    NtfsData | NtfsAds | HfsDataFork | HfsResourceFork | ApfsNamed | DataStream | XattrData
  | SyntheticSlack

datatype residency_kind = Resident u32 | NonResident

datatype allocation = Allocated | Deleted | Orphan

datatype node_kind =
    FileNode | DirNode | Symlink | Device | CharDevice | BlockDevice | Fifo | Socket | OtherNode

record stream_info =
  si_id :: stream_id
  si_name :: "bytes option"
  si_size :: u64
  si_residency :: residency_kind
  si_kind :: stream_kind

section \<open>Times, sizes and runs\<close>

datatype time_source = TsSi | TsFn | InodeTable | DirEntryTime | UnspecifiedTime

datatype time_resolution = WinFileTime | Nanos | Micros | Seconds | TwoSeconds

record time_stamp =
  ts_unix_nanos :: "128 word"
  ts_source :: time_source
  ts_resolution :: time_resolution

record macb_times =
  mt_modified :: "time_stamp option"
  mt_accessed :: "time_stamp option"
  mt_changed :: "time_stamp option"
  mt_born :: "time_stamp option"

datatype time_zone_policy = Utc | LocalUnknown | LocalZone "16 word"

record sector_sizes =
  ss_logical :: u32
  ss_physical :: u32
  ss_cluster_or_block :: u32

record run_flags =
  rf_sparse :: bool
  rf_encrypted :: bool
  rf_compressed :: bool
  rf_filler :: bool

record byte_run =
  br_image_offset :: u64
  br_len :: u64
  br_flags :: run_flags

datatype run_alloc = RunAllocated | RunUnallocated | RunOverwritten | RunUnknown

record run_info =
  ri_run :: byte_run
  ri_alloc :: run_alloc

section \<open>Nodes\<close>

record dir_entry =
  de_name :: bytes
  de_id :: file_id
  de_kind :: node_kind

record hard_link =
  hl_parent :: file_id
  hl_name :: bytes

record fs_meta =
  fm_ino :: u64
  fm_kind :: node_kind
  fm_allocated :: allocation
  fm_size :: u64
  fm_nlink :: u32
  fm_uid :: "u32 option"
  fm_gid :: "u32 option"
  fm_mode :: "u32 option"
  fm_times :: macb_times
  fm_streams :: "stream_info list"
  fm_residency :: residency_kind
  fm_link_target :: "bytes option"

record deleted_node =
  dn_id :: file_id
  dn_name :: bytes
  dn_parent :: "file_id option"
  dn_meta :: fs_meta

section \<open>Owned streams\<close>

datatype 'a owned_stream = OwnedStream "'a vfs_result list"

type_synonym dir_stream = "dir_entry owned_stream"
type_synonym extent_stream = "run_info owned_stream"
type_synonym node_stream = "fs_meta owned_stream"
type_synonym deleted_stream = "deleted_node owned_stream"

definition stream_new :: "'a vfs_result list \<Rightarrow> 'a owned_stream" where
  "stream_new it = OwnedStream it"

definition stream_empty :: "'a owned_stream" where
  "stream_empty = OwnedStream []"

fun stream_next :: "'a owned_stream \<Rightarrow> 'a vfs_result option \<times> 'a owned_stream" where
  "stream_next (OwnedStream []) = (None, OwnedStream [])"
| "stream_next (OwnedStream (x # xs)) = (Some x, OwnedStream xs)"

fun stream_items :: "'a owned_stream \<Rightarrow> 'a vfs_result list" where
  "stream_items (OwnedStream xs) = xs"

section \<open>The trait\<close>

record 'k file_system =
  fs_kind :: 'k
  fs_root :: file_id
  fs_sector_sizes :: sector_sizes
  fs_timestamp_zone :: time_zone_policy
  fs_volume_label :: "string option"
  fs_read_dir :: "file_id \<Rightarrow> dir_stream vfs_result"
  fs_extents :: "file_id \<Rightarrow> stream_id \<Rightarrow> extent_stream vfs_result"
  fs_lookup :: "file_id \<Rightarrow> bytes \<Rightarrow> file_id option vfs_result"
  fs_meta_of :: "file_id \<Rightarrow> fs_meta vfs_result"
  fs_read_at :: "file_id \<Rightarrow> stream_id \<Rightarrow> u64 \<Rightarrow> bytes \<Rightarrow> nat vfs_result \<times> bytes"
  fs_read_link :: "file_id \<Rightarrow> nat \<Rightarrow> bytes vfs_result"
  fs_data_streams :: "file_id \<Rightarrow> stream_info list vfs_result"
  fs_hardlinks :: "file_id \<Rightarrow> hard_link list vfs_result"
  fs_deleted :: "node_stream vfs_result"
  fs_deleted_nodes :: "deleted_stream vfs_result"
  fs_unallocated :: "extent_stream vfs_result"
  fs_slack :: "file_id \<Rightarrow> stream_id \<Rightarrow> byte_run option vfs_result"

text \<open>The provided methods, as a reader that overrides none of them has them: no label, no
  streams, no hard links, no deleted nodes (the stream is empty, nothing is fabricated), no slack.\<close>

definition fs_with_defaults :: "'k file_system \<Rightarrow> 'k file_system" where
  "fs_with_defaults fs = fs\<lparr>fs_volume_label := None,
     fs_data_streams := (\<lambda>_. Inr []),
     fs_hardlinks := (\<lambda>_. Inr []),
     fs_deleted_nodes := Inr stream_empty,
     fs_slack := (\<lambda>_ _. Inr None)\<rparr>"

lemma stream_items_next:
  "stream_next s = (None, s') \<longleftrightarrow> stream_items s = [] \<and> s' = s"
  "stream_next s = (Some x, s') \<longleftrightarrow> stream_items s = x # stream_items s'"
  by (cases s rule: stream_next.cases; cases s'; auto)+

lemma stream_items_new [simp]: "stream_items (stream_new it) = it"
  by (simp add: stream_new_def)

lemma stream_items_empty [simp]: "stream_items stream_empty = []"
  by (simp add: stream_empty_def)

end
