(* ===== verification/Registry.thy ===== *)
theory Registry
  imports Encryption Volume Fs
begin

text \<open>
  The plugin contracts and the dispatch table (\<open>crates/core/src/registry.rs\<close>): formats, a prober's
  verdict, the bounded sniff window, the six opener traits, and \<open>Openers\<close> with its builders and
  accessors. The lemmas say what the window's probes compare, from the head and from the end, that
  they fail rather than read out of range, and that registration keeps the order.
\<close>

datatype container_format =
    Ewf | Vmdk | Vhdx | Vhd | Qcow2 | Dmg | Aff4 | Ad1 | Dar | RawImage | AutoFormat

section \<open>Verdicts\<close>

datatype confidence = No | Maybe | Yes string

definition is_candidate :: "confidence \<Rightarrow> bool" where
  "is_candidate c = (case c of No \<Rightarrow> False | _ \<Rightarrow> True)"

definition is_yes :: "confidence \<Rightarrow> bool" where
  "is_yes c = (case c of Yes _ \<Rightarrow> True | _ \<Rightarrow> False)"

lemma is_candidate_simps [simp]: "\<not> is_candidate No" "is_candidate Maybe" "is_candidate (Yes how)"
  by (simp_all add: is_candidate_def)

lemma is_yes_simps [simp]: "\<not> is_yes No" "\<not> is_yes Maybe" "is_yes (Yes how)"
  by (simp_all add: is_yes_def)

lemma is_yes_candidate: "is_yes c \<Longrightarrow> is_candidate c"
  by (cases c) auto

section \<open>The sniff window\<close>

record sniff_window =
  sw_base :: u64
  sw_bytes :: bytes
  sw_total_len :: u64
  sw_tail :: bytes

definition window_base :: "sniff_window \<Rightarrow> u64" where
  "window_base w = sw_base w"

definition window_bytes :: "sniff_window \<Rightarrow> bytes" where
  "window_bytes w = sw_bytes w"

definition window_total_len :: "sniff_window \<Rightarrow> u64" where
  "window_total_len w = sw_total_len w"

definition sniff_window_new :: "u64 \<Rightarrow> bytes \<Rightarrow> sniff_window" where
  "sniff_window_new base bs =
     \<lparr>sw_base = base, sw_bytes = bs,
      sw_total_len = saturating_add base (word_of_nat (length bs)), sw_tail = []\<rparr>"

definition sniff_window_with_tail :: "u64 \<Rightarrow> bytes \<Rightarrow> u64 \<Rightarrow> bytes \<Rightarrow> sniff_window" where
  "sniff_window_with_tail base bs total_len tail =
     \<lparr>sw_base = base, sw_bytes = bs, sw_total_len = total_len, sw_tail = tail\<rparr>"

definition window_at :: "sniff_window \<Rightarrow> usize \<Rightarrow> usize \<Rightarrow> bytes option" where
  "window_at w off n =
     (case checked_add off n of
        None \<Rightarrow> None
      | Some end_ \<Rightarrow> slice_get (unat off) (unat end_) (sw_bytes w))"

definition has_magic :: "sniff_window \<Rightarrow> usize \<Rightarrow> bytes \<Rightarrow> bool" where
  "has_magic w off magic \<longleftrightarrow> window_at w off (word_of_nat (length magic)) = Some magic"

definition tail_at :: "sniff_window \<Rightarrow> usize \<Rightarrow> usize \<Rightarrow> bytes option" where
  "tail_at w from_end n =
     (case checked_sub (word_of_nat (length (sw_tail w))) from_end of
        None \<Rightarrow> None
      | Some start \<Rightarrow>
          (case checked_add start n of
             None \<Rightarrow> None
           | Some end_ \<Rightarrow> slice_get (unat start) (unat end_) (sw_tail w)))"

definition has_magic_from_end :: "sniff_window \<Rightarrow> usize \<Rightarrow> bytes \<Rightarrow> bool" where
  "has_magic_from_end w from_end magic \<longleftrightarrow>
     tail_at w from_end (word_of_nat (length magic)) = Some magic"

text \<open>The window the resolver builds: head from offset 0 and tail, each the filled prefix.\<close>

lemma unat_of_length: "length xs < 2 ^ 64 \<Longrightarrow> unat (word_of_nat (length xs) :: usize) = length xs"
  by (simp add: unat_of_nat)

lemma window_at_eq:
  "window_at w off n =
     (if unat off + unat n \<le> length (sw_bytes w) \<and> unat off + unat n < 2 ^ 64
      then Some (take (unat n) (drop (unat off) (sw_bytes w))) else None)"
proof (cases "checked_add off n")
  case None
  then show ?thesis by (auto simp: window_at_def checked_add_def split: if_splits)
next
  case (Some e)
  from Some have "unat off + unat n < 2 ^ 64" by (simp add: checked_add_Some_iff)
  moreover from checked_add_unat [OF Some] have "unat e = unat off + unat n" .
  ultimately show ?thesis using Some by (simp add: window_at_def slice_get_def)
qed

lemma has_magic_iff:
  assumes "length (sw_bytes w) < 2 ^ 64" and "length magic < 2 ^ 64"
  shows "has_magic w off magic \<longleftrightarrow>
    unat off + length magic \<le> length (sw_bytes w)
    \<and> take (length magic) (drop (unat off) (sw_bytes w)) = magic"
  using assms by (auto simp: has_magic_def window_at_eq unat_of_length)

lemma tail_at_eq:
  assumes "length (sw_tail w) < 2 ^ 64"
  shows "tail_at w from_end n =
    (if unat from_end \<le> length (sw_tail w) \<and> unat n \<le> unat from_end
     then Some (take (unat n) (drop (length (sw_tail w) - unat from_end) (sw_tail w))) else None)"
proof (cases "unat from_end \<le> length (sw_tail w)")
  case False
  with assms show ?thesis
    by (simp add: tail_at_def checked_sub_def word_le_nat_alt unat_of_length)
next
  case True
  define start where "start = word_of_nat (length (sw_tail w)) - from_end"
  have le: "from_end \<le> word_of_nat (length (sw_tail w))"
    using True assms by (simp add: word_le_nat_alt unat_of_length)
  then have start: "unat start = length (sw_tail w) - unat from_end"
    using assms by (simp add: start_def unat_sub unat_of_length)
  have cs: "checked_sub (word_of_nat (length (sw_tail w))) from_end = Some start"
    using le by (simp add: checked_sub_def start_def)
  show ?thesis
  proof (cases "checked_add start n")
    case None
    then have "2 ^ 64 \<le> unat start + unat n" by (auto simp: checked_add_def split: if_splits)
    then have "\<not> unat n \<le> unat from_end" using start True assms by linarith
    with None cs show ?thesis by (simp add: tail_at_def)
  next
    case (Some e)
    from checked_add_unat [OF Some] have "unat e = unat start + unat n" .
    with Some cs start True show ?thesis
      by (auto simp: tail_at_def slice_get_def)
  qed
qed

lemma has_magic_from_end_iff:
  assumes "length (sw_tail w) < 2 ^ 64" and "length magic < 2 ^ 64"
  shows "has_magic_from_end w from_end magic \<longleftrightarrow>
    length magic \<le> unat from_end \<and> unat from_end \<le> length (sw_tail w)
    \<and> take (length magic) (drop (length (sw_tail w) - unat from_end) (sw_tail w)) = magic"
  using assms by (auto simp: has_magic_from_end_def tail_at_eq unat_of_length)

section \<open>The opener traits\<close>

record container_open =
  co_format :: container_format
  co_probe :: "sniff_window \<Rightarrow> confidence"
  co_open :: "dyn_source \<Rightarrow> dyn_source vfs_result"

record volume_system_open =
  vo_scheme :: volume_scheme
  vo_probe :: "sniff_window \<Rightarrow> confidence"
  vo_open :: "dyn_source \<Rightarrow> volume_system vfs_result"

record encryption_open =
  eo_scheme :: encryption_scheme
  eo_probe :: "sniff_window \<Rightarrow> confidence"
  eo_open :: "dyn_source \<Rightarrow> encryption_layer vfs_result"

record 'k file_system_open =
  fo_kind :: 'k
  fo_probe :: "sniff_window \<Rightarrow> confidence"
  fo_open :: "dyn_source \<Rightarrow> 'k file_system vfs_result"

record archive_open =
  ao_probe :: "sniff_window \<Rightarrow> confidence"
  ao_open :: "dyn_source \<Rightarrow> archive_contents vfs_result"

record 'k tree_open =
  to_name :: string
  to_probe :: "bytes \<Rightarrow> confidence"
  to_open :: "bytes \<Rightarrow> credential_source \<Rightarrow> 'k file_system vfs_result"

section \<open>The dispatch table\<close>

record 'k openers =
  op_containers :: "container_open list"
  op_volume_systems :: "volume_system_open list"
  op_encryption :: "encryption_open list"
  op_filesystems :: "'k file_system_open list"
  op_archives :: "archive_open list"
  op_trees :: "'k tree_open list"

definition openers_new :: "'k openers" where
  "openers_new = \<lparr>op_containers = [], op_volume_systems = [], op_encryption = [],
     op_filesystems = [], op_archives = [], op_trees = []\<rparr>"

definition openers_container :: "'k openers \<Rightarrow> container_open \<Rightarrow> 'k openers" where
  "openers_container s d = s\<lparr>op_containers := op_containers s @ [d]\<rparr>"

definition openers_volume_system :: "'k openers \<Rightarrow> volume_system_open \<Rightarrow> 'k openers" where
  "openers_volume_system s p = s\<lparr>op_volume_systems := op_volume_systems s @ [p]\<rparr>"

definition openers_encryption :: "'k openers \<Rightarrow> encryption_open \<Rightarrow> 'k openers" where
  "openers_encryption s p = s\<lparr>op_encryption := op_encryption s @ [p]\<rparr>"

definition openers_filesystem :: "'k openers \<Rightarrow> 'k file_system_open \<Rightarrow> 'k openers" where
  "openers_filesystem s p = s\<lparr>op_filesystems := op_filesystems s @ [p]\<rparr>"

definition openers_archive :: "'k openers \<Rightarrow> archive_open \<Rightarrow> 'k openers" where
  "openers_archive s a = s\<lparr>op_archives := op_archives s @ [a]\<rparr>"

definition openers_tree :: "'k openers \<Rightarrow> 'k tree_open \<Rightarrow> 'k openers" where
  "openers_tree s t = s\<lparr>op_trees := op_trees s @ [t]\<rparr>"

text \<open>The accessors, in the order of the fields.\<close>

definition openers_containers :: "'k openers \<Rightarrow> container_open list" where
  "openers_containers s = op_containers s"

definition openers_volume_systems :: "'k openers \<Rightarrow> volume_system_open list" where
  "openers_volume_systems s = op_volume_systems s"

definition openers_encryption_layers :: "'k openers \<Rightarrow> encryption_open list" where
  "openers_encryption_layers s = op_encryption s"

definition openers_filesystems :: "'k openers \<Rightarrow> 'k file_system_open list" where
  "openers_filesystems s = op_filesystems s"

definition openers_archives :: "'k openers \<Rightarrow> archive_open list" where
  "openers_archives s = op_archives s"

definition openers_trees :: "'k openers \<Rightarrow> 'k tree_open list" where
  "openers_trees s = op_trees s"

lemmas openers_accessors = openers_containers_def openers_volume_systems_def
  openers_encryption_layers_def openers_filesystems_def openers_archives_def openers_trees_def

lemmas openers_builders = openers_new_def openers_container_def openers_volume_system_def
  openers_encryption_def openers_filesystem_def openers_archive_def openers_tree_def

text \<open>A registration comes last in its list.\<close>

lemma registered_last:
  "openers_containers (openers_container s c) = openers_containers s @ [c]"
  "openers_volume_systems (openers_volume_system s v) = openers_volume_systems s @ [v]"
  "openers_encryption_layers (openers_encryption s e) = openers_encryption_layers s @ [e]"
  "openers_filesystems (openers_filesystem s f) = openers_filesystems s @ [f]"
  "openers_archives (openers_archive s a) = openers_archives s @ [a]"
  "openers_trees (openers_tree s t) = openers_trees s @ [t]"
  by (simp_all add: openers_accessors openers_builders)

end
