(* ===== verification/Locator.thy ===== *)
theory Locator
  imports Registry
begin

text \<open>
  The recursive access-route locator (\<open>crates/core/src/locator.rs\<close>): one constructor per \<open>Layer\<close>
  variant, the chain of layers with its parent pointers, and the operations on it. A \<open>PathBuf\<close> is
  the bytes of its \<open>OsStr\<close>, any bytes on Unix and WTF-8 on Windows. The lemmas describe a chain by its
  list of layers, root first, which determines the locator.
\<close>

datatype guid = Guid bytes

fun guid_bytes :: "guid \<Rightarrow> bytes" where
  "guid_bytes (Guid bs) = bs"

datatype snapshot_ref = VssStore usize | ApfsXid u64

datatype node_addr =
    PathAddr "bytes list"
  | FileAddr file_id
  | BothAddr "bytes list" file_id

datatype 'k layer =
    FileLayer bytes
  | DirectoryLayer bytes
  | RangeLayer u64 u64
  | ContainerLayer container_format
  | VolumeLayer volume_scheme usize "guid option"
  | EncryptionLayer encryption_scheme
  | SnapshotLayer snapshot_ref
  | FsLayer 'k node_addr
  | StreamLayer stream_id
  | ArchiveLayer "usize option"

datatype 'k locator = Locator (loc_layer: "'k layer") (loc_parent: "'k locator option")

definition locator_file :: "bytes \<Rightarrow> 'k locator" where
  "locator_file path = Locator (FileLayer path) None"

definition locator_directory :: "bytes \<Rightarrow> 'k locator" where
  "locator_directory path = Locator (DirectoryLayer path) None"

text \<open>The deprecated alias of \<open>file\<close>.\<close>

definition locator_os :: "bytes \<Rightarrow> 'k locator" where
  "locator_os path = locator_file path"

definition locator_root :: "'k layer \<Rightarrow> 'k locator" where
  "locator_root l = Locator l None"

definition locator_push :: "'k locator \<Rightarrow> 'k layer \<Rightarrow> 'k locator" where
  "locator_push self l = Locator l (Some self)"

fun locator_depth :: "'k locator \<Rightarrow> nat" where
  "locator_depth (Locator l None) = 1"
| "locator_depth (Locator l (Some p)) = 1 + locator_depth p"

fun locator_base :: "'k locator \<Rightarrow> 'k locator" where
  "locator_base (Locator l None) = Locator l None"
| "locator_base (Locator l (Some p)) = locator_base p"

fun locator_layers :: "'k locator \<Rightarrow> 'k layer list" where
  "locator_layers (Locator l None) = [l]"
| "locator_layers (Locator l (Some p)) = locator_layers p @ [l]"

section \<open>Chains and lists of layers\<close>

lemma locator_layers_nonempty [simp]: "locator_layers l \<noteq> []"
  by (cases l rule: locator_layers.cases) auto

lemmas locator_layers_nonempty' [simp] = locator_layers_nonempty [symmetric]

lemma locator_push_simps [simp]:
  "locator_layers (locator_push self l) = locator_layers self @ [l]"
  "locator_depth (locator_push self l) = Suc (locator_depth self)"
  "locator_base (locator_push self l) = locator_base self"
  "loc_layer (locator_push self l) = l"
  "loc_parent (locator_push self l) = Some self"
  by (simp_all add: locator_push_def)

lemma locator_root_simps [simp]:
  "locator_layers (locator_root l) = [l]"
  "locator_depth (locator_root l) = 1"
  "locator_base (locator_root l) = locator_root l"
  by (simp_all add: locator_root_def)

lemma locator_depth_layers: "locator_depth l = length (locator_layers l)"
  by (induction l rule: locator_layers.induct) auto

lemma locator_base_layers: "locator_layers (locator_base l) = [hd (locator_layers l)]"
  by (induction l rule: locator_layers.induct) (auto simp: hd_append)

lemma locator_layers_last: "last (locator_layers l) = loc_layer l"
  by (cases l rule: locator_layers.cases) auto

lemma locator_layers_inject: "locator_layers a = locator_layers b \<longleftrightarrow> a = b"
proof (induction a arbitrary: b rule: locator_layers.induct)
  case (1 l)
  show ?case by (cases b rule: locator_layers.cases) (auto simp: append_eq_Cons_conv)
next
  case (2 l p)
  show ?case
    by (cases b rule: locator_layers.cases) (use "2.IH" in \<open>auto simp: append_eq_Cons_conv\<close>)
qed

text \<open>Building a chain from a non-empty list of layers, root first, by \<open>root\<close> and \<open>push\<close>.\<close>

definition locator_of :: "'k layer list \<Rightarrow> 'k locator" where
  "locator_of ls = foldl locator_push (locator_root (hd ls)) (tl ls)"

lemma foldl_push_layers:
  "locator_layers (foldl locator_push l ls) = locator_layers l @ ls"
  by (induction ls arbitrary: l) auto

lemma locator_layers_of: "ls \<noteq> [] \<Longrightarrow> locator_layers (locator_of ls) = ls"
  by (simp add: locator_of_def foldl_push_layers)

lemma locator_of_layers: "locator_of (locator_layers l) = l"
  by (simp add: locator_layers_inject [symmetric] locator_layers_of)

end
