(* ===== verification/Tokens.thy ===== *)
theory Tokens
  imports Percent Locator
begin

text \<open>
  The token vocabulary of \<open>crates/core/src/uri.rs\<close>: the words for container formats, volume schemes
  and encryption schemes, the integer fields, GUIDs, file ids, stream ids and node addresses, each
  with its encoder and its parser. The string \<open>ctx\<close> is the layer text that an error carries.

  \<open>codec_env\<close> is what the codec depends on beyond its arguments: the platform it is compiled for and
  the registry of filesystem kinds, which belongs to the external crate and of which the codec uses
  the list \<open>FsKind::known()\<close> and \<open>as_str\<close>.
\<close>

section \<open>Words\<close>

fun container_token :: "container_format \<Rightarrow> string" where
  "container_token Ewf = ''ewf''"
| "container_token Vmdk = ''vmdk''"
| "container_token Vhdx = ''vhdx''"
| "container_token Vhd = ''vhd''"
| "container_token Qcow2 = ''qcow2''"
| "container_token Dmg = ''dmg''"
| "container_token Aff4 = ''aff4''"
| "container_token Ad1 = ''ad1''"
| "container_token Dar = ''dar''"
| "container_token RawImage = ''raw''"
| "container_token AutoFormat = ''auto''"

definition parse_container :: "string \<Rightarrow> string \<Rightarrow> container_format vfs_result" where
  "parse_container t ctx =
     (if t = ''ewf'' then Inr Ewf
      else if t = ''vmdk'' then Inr Vmdk
      else if t = ''vhdx'' then Inr Vhdx
      else if t = ''vhd'' then Inr Vhd
      else if t = ''qcow2'' then Inr Qcow2
      else if t = ''dmg'' then Inr Dmg
      else if t = ''aff4'' then Inr Aff4
      else if t = ''ad1'' then Inr Ad1
      else if t = ''dar'' then Inr Dar
      else if t = ''raw'' then Inr RawImage
      else if t = ''auto'' then Inr AutoFormat
      else Inl (uri_err ''unknown container format'' ctx))"

fun volume_token :: "volume_scheme \<Rightarrow> string" where
  "volume_token Mbr = ''mbr''"
| "volume_token Gpt = ''gpt''"
| "volume_token Apm = ''apm''"
| "volume_token Vss = ''vss''"
| "volume_token ApfsContainer = ''apfscontainer''"
| "volume_token Lvm = ''lvm''"

definition parse_volume_scheme :: "string \<Rightarrow> string \<Rightarrow> volume_scheme vfs_result" where
  "parse_volume_scheme t ctx =
     (if t = ''mbr'' then Inr Mbr
      else if t = ''gpt'' then Inr Gpt
      else if t = ''apm'' then Inr Apm
      else if t = ''vss'' then Inr Vss
      else if t = ''apfscontainer'' then Inr ApfsContainer
      else if t = ''lvm'' then Inr Lvm
      else Inl (uri_err ''unknown volume scheme'' ctx))"

fun encryption_token :: "encryption_scheme \<Rightarrow> string" where
  "encryption_token Bitlocker = ''bitlocker''"
| "encryption_token Luks1 = ''luks1''"
| "encryption_token Luks2 = ''luks2''"
| "encryption_token FileVault = ''filevault''"
| "encryption_token ApfsEncrypted = ''apfsencrypted''"
| "encryption_token VeraCrypt = ''veracrypt''"
| "encryption_token IosBackup = ''iosbackup''"

definition parse_encryption :: "string \<Rightarrow> string \<Rightarrow> encryption_scheme vfs_result" where
  "parse_encryption t ctx =
     (if t = ''bitlocker'' then Inr Bitlocker
      else if t = ''luks1'' then Inr Luks1
      else if t = ''luks2'' then Inr Luks2
      else if t = ''filevault'' then Inr FileVault
      else if t = ''apfsencrypted'' then Inr ApfsEncrypted
      else if t = ''veracrypt'' then Inr VeraCrypt
      else if t = ''iosbackup'' then Inr IosBackup
      else Inl (uri_err ''unknown encryption scheme'' ctx))"

record 'k codec_env =
  ce_platform :: platform
  fk_known :: "'k list"
  fk_as_str :: "'k \<Rightarrow> string"

definition parse_fs_kind :: "'k codec_env \<Rightarrow> string \<Rightarrow> string \<Rightarrow> 'k vfs_result" where
  "parse_fs_kind K t ctx =
     ok_or (uri_err ''unknown filesystem kind'' ctx) (find (\<lambda>k. fk_as_str K k = t) (fk_known K))"

section \<open>Integer fields and GUIDs\<close>

definition u64_field :: "string \<Rightarrow> string \<Rightarrow> u64 vfs_result" where
  "u64_field t ctx = ok_or (uri_err ''expected integer'' ctx) (parse_unsigned 10 t)"

definition u32_field :: "string \<Rightarrow> string \<Rightarrow> u32 vfs_result" where
  "u32_field t ctx = ok_or (uri_err ''expected u32'' ctx) (parse_unsigned 10 t)"

definition usize_field :: "string \<Rightarrow> string \<Rightarrow> usize vfs_result" where
  "usize_field t ctx = ok_or (uri_err ''expected index'' ctx) (parse_unsigned 10 t)"

fun guid_hex :: "guid \<Rightarrow> string" where
  "guid_hex (Guid bs) = concat (map hex2_lower bs)"

text \<open>The \<open>i\<close>-th byte of a GUID: \<open>str::get\<close> is out of range also off a character boundary, which
  a boundary byte (one that does not continue a sequence) decides.\<close>

definition char_boundary :: "string \<Rightarrow> nat \<Rightarrow> bool" where
  "char_boundary t i \<longleftrightarrow>
     i = 0 \<or> i = length t \<or> (i < length t \<and> \<not> (128 \<le> char_byte (t ! i) \<and> char_byte (t ! i) < 192))"

definition str_get :: "nat \<Rightarrow> nat \<Rightarrow> string \<Rightarrow> string option" where
  "str_get a b t = (if char_boundary t a \<and> char_boundary t b then slice_get a b t else None)"

definition guid_byte :: "string \<Rightarrow> string \<Rightarrow> nat \<Rightarrow> u8 vfs_result" where
  "guid_byte t ctx i =
     res_bind (ok_or (uri_err ''bad guid'' ctx) (str_get (i * 2) (i * 2 + 2) t))
       (\<lambda>pair. ok_or (uri_err ''bad guid hex'' ctx) (parse_unsigned 16 pair))"

definition parse_guid :: "string \<Rightarrow> string \<Rightarrow> guid vfs_result" where
  "parse_guid t ctx =
     (if length t \<noteq> 32 then Inl (uri_err ''guid must be 32 hex chars'' ctx)
      else res_bind (res_collect (guid_byte t ctx) [0..<16]) (\<lambda>out. Inr (Guid out)))"

section \<open>File ids\<close>

fun file_id_token :: "file_id \<Rightarrow> string" where
  "file_id_token (NtfsRef entry seq) =
     ''ntfsref.'' @ show_word entry @ ''.'' @ show_word seq"
| "file_id_token (ExtInode ino gen) =
     ''extinode.'' @ show_word ino @ ''.'' @ show_word gen"
| "file_id_token (ApfsOid oid xid) =
     ''apfsoid.'' @ show_word oid @ ''.'' @ show_word xid"
| "file_id_token (FatDirEntry cluster index) =
     ''fatdirentry.'' @ show_word cluster @ ''.'' @ show_word index"
| "file_id_token (IsoExtent block) = ''isoextent.'' @ show_word block"
| "file_id_token (OpaqueId n) = ''opaque.'' @ show_word n"
| "file_id_token (FutureFileId n) = ''unknown''"

text \<open>The closure \<open>num\<close>: the next field of the split, as an integer, and the fields after it.\<close>

definition next_num :: "string \<Rightarrow> string \<Rightarrow> string list \<Rightarrow> (u64 \<times> string list) vfs_result" where
  "next_num ctx name it =
     (case it of
        [] \<Rightarrow> Inl (uri_err name ctx)
      | s # it' \<Rightarrow> res_bind (u64_field s ctx) (\<lambda>v. Inr (v, it')))"

definition parse_file_id :: "string \<Rightarrow> string \<Rightarrow> file_id vfs_result" where
  "parse_file_id t ctx =
     (case split_on CHR ''.'' t of
        [] \<Rightarrow> Inl (uri_err ''empty file id'' ctx)
      | head # it \<Rightarrow>
          if head = ''ntfsref'' then
            res_bind (next_num ctx ''entry'' it) (\<lambda>(entry, it).
            res_bind (next_num ctx ''seq'' it) (\<lambda>(seq, it).
              Inr (NtfsRef entry (ucast seq))))
          else if head = ''extinode'' then
            res_bind (next_num ctx ''ino'' it) (\<lambda>(ino, it).
            res_bind (next_num ctx ''gen'' it) (\<lambda>(gen, it).
              Inr (ExtInode ino (ucast gen))))
          else if head = ''apfsoid'' then
            res_bind (next_num ctx ''oid'' it) (\<lambda>(oid, it).
            res_bind (next_num ctx ''xid'' it) (\<lambda>(xid, it).
              Inr (ApfsOid oid xid)))
          else if head = ''fatdirentry'' then
            res_bind (next_num ctx ''cluster'' it) (\<lambda>(cluster, it).
            res_bind (next_num ctx ''index'' it) (\<lambda>(index, it).
              Inr (FatDirEntry (ucast cluster) (ucast index))))
          else if head = ''isoextent'' then
            res_bind (next_num ctx ''block'' it) (\<lambda>(block, it). Inr (IsoExtent (ucast block)))
          else if head = ''opaque'' then
            res_bind (next_num ctx ''n'' it) (\<lambda>(n, it). Inr (OpaqueId n))
          else Inl (uri_err ''unknown file id kind'' ctx))"

section \<open>Stream ids\<close>

fun stream_token :: "stream_id \<Rightarrow> string" where
  "stream_token DefaultStream = ''default''"
| "stream_token (NamedStream n) = ''named.'' @ show_word n"
| "stream_token ResourceFork = ''resourcefork''"
| "stream_token (XattrStream n) = ''xattr.'' @ show_word n"
| "stream_token SlackStream = ''slack''"

text \<open>\<open>it.next().unwrap_or("")\<close>.\<close>

definition next_or_empty :: "string list \<Rightarrow> string" where
  "next_or_empty it = (case it of [] \<Rightarrow> [] | s # _ \<Rightarrow> s)"

definition parse_stream :: "string \<Rightarrow> string \<Rightarrow> stream_id vfs_result" where
  "parse_stream t ctx =
     (let it = split_on CHR ''.'' t; head = next_or_empty it; rest = tl it
      in if head = ''default'' then Inr DefaultStream
         else if head = ''resourcefork'' then Inr ResourceFork
         else if head = ''slack'' then Inr SlackStream
         else if head = ''named'' then
           res_bind (u32_field (next_or_empty rest) ctx) (\<lambda>n. Inr (NamedStream (ucast n)))
         else if head = ''xattr'' then
           res_bind (u32_field (next_or_empty rest) ctx) (\<lambda>n. Inr (XattrStream (ucast n)))
         else Inl (uri_err ''unknown stream id'' ctx))"

section \<open>Node addresses\<close>

text \<open>\<open>comps\<close>: each component after a slash.\<close>

definition comps_encode :: "bytes list \<Rightarrow> string" where
  "comps_encode cs = concat (map (\<lambda>c. CHR ''/'' # pct_encode c) cs)"

fun node_addr_encode :: "node_addr \<Rightarrow> string" where
  "node_addr_encode (PathAddr cs) = ''p'' @ comps_encode cs"
| "node_addr_encode (FileAddr fid) = ''f/'' @ file_id_token fid"
| "node_addr_encode (BothAddr path fid) = ''b/'' @ file_id_token fid @ comps_encode path"

text \<open>\<open>rest.strip_prefix('/').unwrap_or(rest)\<close>.\<close>

definition strip_slash :: "string \<Rightarrow> string" where
  "strip_slash rest = (case strip_prefix ''/'' rest of None \<Rightarrow> rest | Some r \<Rightarrow> r)"

definition decode_comps :: "string \<Rightarrow> bytes list vfs_result" where
  "decode_comps rest =
     (if rest = [] then Inr []
      else res_collect pct_decode (split_on CHR ''/'' (strip_slash rest)))"

text \<open>\<open>char::len_utf8\<close> of the first character, from its leading byte; 0 for no character.\<close>

definition first_char_len :: "string \<Rightarrow> nat" where
  "first_char_len t =
     (case t of
        [] \<Rightarrow> 0
      | c # _ \<Rightarrow>
          (let b = char_byte c
           in if b < 128 then 1 else if b < 224 then 2 else if b < 240 then 3 else 4))"

definition parse_node_addr :: "string \<Rightarrow> string \<Rightarrow> node_addr vfs_result" where
  "parse_node_addr t ctx =
     (let tag = take (first_char_len t) t; rest = drop (first_char_len t) t
      in if tag = ''p'' then res_bind (decode_comps rest) (\<lambda>cs. Inr (PathAddr cs))
         else if tag = ''f'' then
           res_bind (parse_file_id (strip_slash rest) ctx) (\<lambda>fid. Inr (FileAddr fid))
         else if tag = ''b'' then
           (let parts = splitn2 CHR ''/'' (strip_slash rest)
            in res_bind (parse_file_id (next_or_empty parts) ctx) (\<lambda>fid.
               res_bind (case tl parts of
                           p # _ \<Rightarrow> res_collect pct_decode (split_on CHR ''/'' p)
                         | [] \<Rightarrow> Inr [])
                 (\<lambda>path. Inr (BothAddr path fid))))
         else Inl (uri_err ''unknown node address'' ctx))"

section \<open>Words decode\<close>

interpretation container_words: text_codec container_token "\<lambda>t. parse_container t ctx" "\<lambda>_. True"
  for ctx :: string
proof unfold_locales
  fix f show "parse_container (container_token f) ctx = Inr f"
    by (cases f) (simp_all add: parse_container_def)
qed

interpretation volume_words: text_codec volume_token "\<lambda>t. parse_volume_scheme t ctx" "\<lambda>_. True"
  for ctx :: string
proof unfold_locales
  fix s show "parse_volume_scheme (volume_token s) ctx = Inr s"
    by (cases s) (simp_all add: parse_volume_scheme_def)
qed

interpretation encryption_words: text_codec encryption_token "\<lambda>t. parse_encryption t ctx" "\<lambda>_. True"
  for ctx :: string
proof unfold_locales
  fix s show "parse_encryption (encryption_token s) ctx = Inr s"
    by (cases s) (simp_all add: parse_encryption_def)
qed

interpretation u64_fields: text_codec "show_word :: u64 \<Rightarrow> string" "\<lambda>t. u64_field t ctx" "\<lambda>_. True"
  for ctx :: string
  by unfold_locales (simp add: u64_field_def codec_ok)

interpretation u32_fields: text_codec "show_word :: u32 \<Rightarrow> string" "\<lambda>t. u32_field t ctx" "\<lambda>_. True"
  for ctx :: string
  by unfold_locales (simp add: u32_field_def codec_ok)

interpretation usize_fields: text_codec
  "show_word :: usize \<Rightarrow> string" "\<lambda>t. usize_field t ctx" "\<lambda>_. True"
  for ctx :: string
  by unfold_locales (simp add: usize_field_def codec_ok)

lemmas word_codecs = container_words.dec_enc volume_words.dec_enc encryption_words.dec_enc
  u64_fields.dec_enc u32_fields.dec_enc usize_fields.dec_enc

text \<open>A registry of filesystem kinds is usable when two kinds never have one name and no name
  contains a structural delimiter.\<close>

definition fs_kinds_ok :: "'k codec_env \<Rightarrow> bool" where
  "fs_kinds_ok K \<longleftrightarrow> distinct (map (fk_as_str K) (fk_known K))
     \<and> (\<forall>k \<in> set (fk_known K). CHR '','' \<notin> set (fk_as_str K k) \<and> CHR ''|'' \<notin> set (fk_as_str K k))"

lemma find_distinct_map:
  "distinct (map f xs) \<Longrightarrow> x \<in> set xs \<Longrightarrow> find (\<lambda>y. f y = f x) xs = Some x"
  by (induction xs) auto

lemma parse_fs_kind_known:
  "fs_kinds_ok K \<Longrightarrow> k \<in> set (fk_known K) \<Longrightarrow> parse_fs_kind K (fk_as_str K k) ctx = Inr k"
  by (simp add: parse_fs_kind_def fs_kinds_ok_def find_distinct_map)

lemma parse_fs_kind_InrD:
  "parse_fs_kind K t ctx = Inr k \<Longrightarrow> k \<in> set (fk_known K) \<and> fk_as_str K k = t"
  by (auto simp: parse_fs_kind_def find_Some_iff)

end
