(* ===== verification/Token_Codecs.thy ===== *)
theory Token_Codecs
  imports Tokens
begin

text \<open>
  The structured tokens decode to what was encoded: GUIDs, file ids, stream ids and node addresses
  as interpretations of \<open>text_codec\<close>; which characters each token can contain; and what the parsers
  can return (a GUID of sixteen bytes, never a future file id).
\<close>

section \<open>Characters of tokens\<close>

text \<open>The characters that structure a locator.\<close>

definition structural :: "char \<Rightarrow> bool" where
  "structural c \<longleftrightarrow> c = CHR ''|'' \<or> c = CHR '':'' \<or> c = CHR '','' \<or> c = CHR ''/'' "

lemma show_word_plain:
  "c \<in> set (show_word w) \<Longrightarrow> \<not> structural c \<and> c \<noteq> CHR ''.'' \<and> c \<noteq> CHR ''+''"
  using show_word_range [of c w] by (auto simp: structural_def)

lemma show_word_clean [charset]:
  "CHR ''|'' \<notin> set (show_word w)" "CHR '':'' \<notin> set (show_word w)"
  "CHR '','' \<notin> set (show_word w)" "CHR ''/'' \<notin> set (show_word w)"
  "CHR ''.'' \<notin> set (show_word w)"
  using show_word_plain [of _ w] by (auto simp: structural_def)

lemma split_on_show_word [simp]:
  "split_on CHR ''.'' (show_word w) = [show_word w]"
  "split_on CHR ''.'' (show_word w @ CHR ''.'' # s) = show_word w # split_on CHR ''.'' s"
  by (simp_all add: split_on_clean split_on_append charset)

lemma file_id_token_clean [charset]:
  "CHR ''|'' \<notin> set (file_id_token fid)" "CHR ''/'' \<notin> set (file_id_token fid)"
  by (cases fid; simp add: charset)+

lemma stream_token_clean [charset]: "CHR ''|'' \<notin> set (stream_token s)"
  by (cases s) (simp_all add: charset)

lemma container_token_clean [charset]: "CHR ''|'' \<notin> set (container_token f)"
  by (cases f) simp_all

lemma volume_token_clean [charset]:
  "CHR ''|'' \<notin> set (volume_token s)" "CHR '','' \<notin> set (volume_token s)"
  by (cases s; simp)+

lemma encryption_token_clean [charset]: "CHR ''|'' \<notin> set (encryption_token s)"
  by (cases s) simp_all

section \<open>GUIDs\<close>

definition guid_ok :: "guid \<Rightarrow> bool" where
  "guid_ok g \<longleftrightarrow> length (guid_bytes g) = 16"

lemma length_guid_hex: "length (concat (map hex2_lower bs)) = 2 * length bs"
  by (induction bs) auto

lemma guid_hex_pair:
  "i < length bs \<Longrightarrow> take 2 (drop (2 * i) (concat (map hex2_lower bs))) = hex2_lower (bs ! i)"
proof (induction bs arbitrary: i)
  case (Cons b bs)
  then show ?case by (cases i) (auto simp: hex2_lower_def)
qed simp

lemma hex_digit_lower_plain:
  assumes "n < 16"
  shows "char_byte (hex_digit 97 n) < 128" and "\<not> structural (hex_digit 97 n)"
proof -
  have c: "of_char (hex_digit 97 n) = (if n < 10 then 48 + n else 87 + n)"
    using assms by (simp add: of_char_hex_digit)
  then show "char_byte (hex_digit 97 n) < 128"
    using assms by (simp add: word_less_nat_alt unat_char_byte)
  have "of_char (hex_digit 97 n) \<notin> {124, 58, 44, 47 :: nat}"
    using assms by (auto simp: c)
  then show "\<not> structural (hex_digit 97 n)"
    by (auto simp: structural_def)
qed

lemma hex2_lower_chars: "c \<in> set (hex2_lower b) \<Longrightarrow> char_byte c < 128 \<and> \<not> structural c"
  using hex_halves [of b] by (auto simp: hex2_lower_def hex_digit_lower_plain)

lemma guid_hex_clean [charset]:
  "CHR ''|'' \<notin> set (guid_hex g)" "CHR '','' \<notin> set (guid_hex g)"
  by (cases g; auto dest!: hex2_lower_chars simp: structural_def)+

lemma char_boundary_ascii:
  "(\<And>c. c \<in> set t \<Longrightarrow> char_byte c < 128) \<Longrightarrow> i \<le> length t \<Longrightarrow> char_boundary t i"
  by (auto simp: char_boundary_def not_le)

lemma guid_byte_hex:
  assumes "i < length bs"
  shows "guid_byte (concat (map hex2_lower bs)) ctx i = Inr (bs ! i)"
proof -
  let ?t = "concat (map hex2_lower bs)"
  have asc: "c \<in> set ?t \<Longrightarrow> char_byte c < 128" for c
    by (auto dest: hex2_lower_chars)
  have bd: "char_boundary ?t (i * 2)" "char_boundary ?t (i * 2 + 2)"
    using assms by (auto intro!: char_boundary_ascii asc simp: length_guid_hex simp del: set_concat)
  have "str_get (i * 2) (i * 2 + 2) ?t = Some (hex2_lower (bs ! i))"
    using assms guid_hex_pair [OF assms] bd
    by (simp add: str_get_def length_guid_hex slice_get_def mult.commute)
  then show ?thesis by (simp add: guid_byte_def codec_ok)
qed

interpretation guids: text_codec guid_hex "\<lambda>t. parse_guid t ctx" guid_ok
  for ctx :: string
proof unfold_locales
  fix g assume "guid_ok g"
  then obtain bs where g: "g = Guid bs" and l: "length bs = 16"
    by (cases g) (auto simp: guid_ok_def)
  have "res_collect (guid_byte (guid_hex g) ctx) (map id [0..<16]) = Inr (map (nth bs) [0..<16])"
    by (rule res_collect_map) (simp add: g l guid_byte_hex)
  then show "parse_guid (guid_hex g) ctx = Inr g"
    using map_nth [of bs] by (simp add: parse_guid_def g l length_guid_hex)
qed

lemma parse_guid_ok: "parse_guid t ctx = Inr g \<Longrightarrow> guid_ok g"
  by (auto simp: parse_guid_def guid_ok_def res_bind_Inr_iff res_collect_Inr_iff
      dest!: list_all2_lengthD split: if_splits)

section \<open>File ids and stream ids\<close>

definition file_id_known :: "file_id \<Rightarrow> bool" where
  "file_id_known fid = (case fid of FutureFileId _ \<Rightarrow> False | _ \<Rightarrow> True)"

text \<open>A narrower field is written in decimal and read back at \<open>u32\<close> or \<open>u64\<close>, then cast.\<close>

lemma parse_show_word_wider:
  assumes "LENGTH('a::len) \<le> LENGTH('b::len)"
  shows "parse_unsigned 10 (show_word (w :: 'a word)) = Some (ucast w :: 'b word)"
proof -
  have "unat w < 2 ^ LENGTH('a)" by (rule unsigned_less)
  also have "\<dots> \<le> 2 ^ LENGTH('b)" using assms by simp
  finally show ?thesis
    by (simp add: parse_unsigned_def show_word_def show_nat_nonempty plus_notin_show_nat
        unsigned_digits_id digits_value_show_nat)
qed

lemma ucast_ucast_id [simp]:
  "LENGTH('a::len) \<le> LENGTH('b::len) \<Longrightarrow> ucast (ucast (w :: 'a word) :: 'b word) = w"
  by (simp add: unsigned_ucast_eq take_bit_word_eq_self)

lemma field_show_word [codec_ok]:
  "u64_field (show_word (w :: 64 word)) ctx = Inr w"
  "u64_field (show_word (w32 :: 32 word)) ctx = Inr (ucast w32)"
  "u64_field (show_word (w16 :: 16 word)) ctx = Inr (ucast w16)"
  "u32_field (show_word (w16 :: 16 word)) ctx = Inr (ucast w16)"
  by (simp_all add: u64_field_def u32_field_def codec_ok parse_show_word_wider)

interpretation file_ids: text_codec file_id_token "\<lambda>t. parse_file_id t ctx" file_id_known
  for ctx :: string
proof unfold_locales
  fix fid assume "file_id_known fid"
  then show "parse_file_id (file_id_token fid) ctx = Inr fid"
    by (cases fid) (simp_all add: file_id_known_def parse_file_id_def next_num_def codec_ok)
qed

interpretation stream_ids: text_codec stream_token "\<lambda>t. parse_stream t ctx" "\<lambda>_. True"
  for ctx :: string
proof unfold_locales
  fix s show "parse_stream (stream_token s) ctx = Inr s"
    by (cases s) (simp_all add: parse_stream_def next_or_empty_def codec_ok)
qed

lemma next_num_InrD: "next_num ctx name it = Inr (v, it') \<Longrightarrow> it \<noteq> []"
  by (auto simp: next_num_def split: list.splits)

lemma parse_file_id_known: "parse_file_id t ctx = Inr fid \<Longrightarrow> file_id_known fid"
  by (auto simp: parse_file_id_def file_id_known_def res_bind_Inr_iff
      split: list.splits if_splits prod.splits)

section \<open>Node addresses\<close>

definition node_addr_ok :: "node_addr \<Rightarrow> bool" where
  "node_addr_ok a =
     (case a of PathAddr _ \<Rightarrow> True | FileAddr fid \<Rightarrow> file_id_known fid
      | BothAddr _ fid \<Rightarrow> file_id_known fid)"

lemma comps_encode_join:
  "cs \<noteq> [] \<Longrightarrow> comps_encode cs = CHR ''/'' # join_with CHR ''/'' (map pct_encode cs)"
proof (induction cs)
  case (Cons c cs)
  then show ?case by (cases cs) (auto simp: comps_encode_def)
qed simp

lemma comps_encode_Nil [simp]: "comps_encode [] = []"
  by (simp add: comps_encode_def)

lemma comps_encode_clean [charset]: "CHR ''|'' \<notin> set (comps_encode cs)"
  by (auto simp: comps_encode_def charset)

lemma strip_slash_slash [simp]: "strip_slash (CHR ''/'' # r) = r"
  by (simp add: strip_slash_def)

lemma decode_comps_encode [codec_ok]: "decode_comps (comps_encode cs) = Inr cs"
proof (cases "cs = []")
  case False
  with comps_encode_join [OF False] component.collect_split_pieces [OF False] show ?thesis
    by (simp add: decode_comps_def)
qed (simp add: decode_comps_def)

lemma splitn2_id_comps:
  "splitn2 CHR ''/'' (file_id_token fid @ comps_encode cs) =
     (if cs = [] then [file_id_token fid]
      else [file_id_token fid, join_with CHR ''/'' (map pct_encode cs)])"
proof (cases "cs = []")
  case True
  then show ?thesis by (simp add: splitn2_def charset split_once_None_iff [THEN iffD2])
next
  case False
  then show ?thesis
    by (simp add: splitn2_def comps_encode_join split_once_append charset)
qed

lemma first_char_len_ascii [simp]: "char_byte c < 128 \<Longrightarrow> first_char_len (c # cs) = 1"
  by (simp add: first_char_len_def)

interpretation node_addrs: text_codec node_addr_encode "\<lambda>t. parse_node_addr t ctx" node_addr_ok
  for ctx :: string
proof unfold_locales
  fix a assume ok: "node_addr_ok a"
  have ascii: "char_byte CHR ''p'' < 128" "char_byte CHR ''f'' < 128" "char_byte CHR ''b'' < 128"
    by (simp_all add: char_byte_def)
  show "parse_node_addr (node_addr_encode a) ctx = Inr a"
  proof (cases a)
    case (PathAddr cs)
    then show ?thesis using ascii by (simp add: parse_node_addr_def codec_ok)
  next
    case (FileAddr fid)
    with ok file_ids.dec_enc [of fid ctx] show ?thesis
      using ascii by (simp add: parse_node_addr_def node_addr_ok_def)
  next
    case (BothAddr path fid)
    with ok file_ids.dec_enc [of fid ctx] show ?thesis
      using ascii component.collect_split_pieces [of path]
      by (simp add: parse_node_addr_def node_addr_ok_def splitn2_id_comps next_or_empty_def)
  qed
qed

lemma node_addr_encode_clean [charset]: "CHR ''|'' \<notin> set (node_addr_encode a)"
  by (cases a) (simp_all add: charset)

lemma parse_node_addr_ok: "parse_node_addr t ctx = Inr a \<Longrightarrow> node_addr_ok a"
  by (auto simp: parse_node_addr_def node_addr_ok_def res_bind_Inr_iff Let_def
      dest!: parse_file_id_known split: if_splits)

end
