(* ===== verification/Utf8.thy ===== *)
theory Utf8
  imports Prelude
begin

text \<open>
  UTF-8 and paths. \<open>from_utf8_lossy\<close> is the standard library's \<open>String::from_utf8_lossy\<close>, which
  replaces every maximal ill-formed prefix by one U+FFFD. A \<open>Path\<close> is the bytes of its \<open>OsStr\<close>: any
  bytes on Unix, and WTF-8 on Windows, which is UTF-8 where a code point may also be an unpaired
  surrogate (\<open>ED A0..BF 80..BF\<close>); \<open>to_string_lossy\<close> replaces each of those by one U+FFFD.

  The lemmas: lossy decoding gives well-formed text and changes nothing in text that was well
  formed, on either kind of path.
\<close>

section \<open>Lossy decoding\<close>

definition utf8_cont :: "u8 \<Rightarrow> bool" where
  "utf8_cont b \<longleftrightarrow> 128 \<le> b \<and> b < 192"

text \<open>How many bytes follow a leading byte, if it leads a sequence.\<close>

definition utf8_follow :: "u8 \<Rightarrow> nat option" where
  "utf8_follow a =
     (if a < 128 then Some 0
      else if 194 \<le> a \<and> a < 224 then Some 1
      else if 224 \<le> a \<and> a < 240 then Some 2
      else if 240 \<le> a \<and> a < 245 then Some 3
      else None)"

text \<open>The second byte is narrower after \<open>E0\<close>, \<open>ED\<close>, \<open>F0\<close> and \<open>F4\<close>.\<close>

definition utf8_second :: "u8 \<Rightarrow> u8 \<Rightarrow> bool" where
  "utf8_second a b \<longleftrightarrow>
     (if a = 224 then 160 \<le> b \<and> b < 192
      else if a = 237 then 128 \<le> b \<and> b < 160
      else if a = 240 then 144 \<le> b \<and> b < 192
      else if a = 244 then 128 \<le> b \<and> b < 144
      else utf8_cont b)"

fun utf8_conts :: "nat \<Rightarrow> bytes \<Rightarrow> nat" where
  "utf8_conts 0 bs = 0"
| "utf8_conts (Suc n) [] = 0"
| "utf8_conts (Suc n) (b # bs) = (if utf8_cont b then Suc (utf8_conts n bs) else 0)"

text \<open>The number of bytes of \<open>bs\<close> that continue the sequence led by \<open>a\<close>, at most \<open>n\<close>.\<close>

definition utf8_tail :: "u8 \<Rightarrow> nat \<Rightarrow> bytes \<Rightarrow> nat" where
  "utf8_tail a n bs =
     (case (n, bs) of
        (Suc m, b # bs') \<Rightarrow> if utf8_second a b then Suc (utf8_conts m bs') else 0
      | _ \<Rightarrow> 0)"

definition replacement :: bytes where
  "replacement = [239, 191, 189]"

fun from_utf8_lossy :: "bytes \<Rightarrow> bytes" where
  "from_utf8_lossy [] = []"
| "from_utf8_lossy (a # bs) =
     (case utf8_follow a of
        None \<Rightarrow> replacement @ from_utf8_lossy bs
      | Some n \<Rightarrow>
          (let k = utf8_tail a n bs
           in (if k = n then a # take k bs else replacement) @ from_utf8_lossy (drop k bs)))"

text \<open>Well-formed UTF-8: the lossy decoding replaces nothing.\<close>

fun utf8_valid :: "bytes \<Rightarrow> bool" where
  "utf8_valid [] = True"
| "utf8_valid (a # bs) =
     (case utf8_follow a of
        None \<Rightarrow> False
      | Some n \<Rightarrow> utf8_tail a n bs = n \<and> utf8_valid (drop n bs))"

section \<open>Paths\<close>

text \<open>On Windows a surrogate is the only ill-formed sequence, and \<open>ED\<close> occurs only as a leading byte.\<close>

fun wtf8_to_string_lossy :: "bytes \<Rightarrow> bytes" where
  "wtf8_to_string_lossy (a # b # c # bs) =
     (if a = 237 \<and> 160 \<le> b then replacement @ wtf8_to_string_lossy bs
      else a # wtf8_to_string_lossy (b # c # bs))"
| "wtf8_to_string_lossy bs = bs"

definition path_to_string_lossy :: "platform \<Rightarrow> bytes \<Rightarrow> bytes" where
  "path_to_string_lossy cfg p =
     (if cfg = Windows then wtf8_to_string_lossy p else from_utf8_lossy p)"

section \<open>Lossy decoding gives text\<close>

lemma from_utf8_lossy_ascii: "(\<And>b. b \<in> set bs \<Longrightarrow> b < 128) \<Longrightarrow> from_utf8_lossy bs = bs"
  by (induction bs rule: from_utf8_lossy.induct)
     (auto simp: utf8_follow_def utf8_tail_def split: nat.splits)

lemma utf8_conts_le: "utf8_conts n bs \<le> n"
  by (induction n bs rule: utf8_conts.induct) auto

lemma utf8_conts_full: "utf8_conts n bs = n \<Longrightarrow> utf8_conts n (take n bs @ rest) = n"
  by (induction n bs rule: utf8_conts.induct) (auto split: if_splits)

lemma utf8_conts_length: "utf8_conts n bs \<le> length bs"
  by (induction n bs rule: utf8_conts.induct) auto

lemma utf8_tail_full:
  assumes "utf8_tail a n bs = n"
  shows "utf8_tail a n (take n bs @ rest) = n" and "length (take n bs) = n"
proof -
  show "utf8_tail a n (take n bs @ rest) = n"
    using assms utf8_conts_full
    by (cases n; cases bs) (auto simp: utf8_tail_def split: if_splits)
  show "length (take n bs) = n"
    using assms utf8_conts_length [of "n - 1" "tl bs"]
    by (cases n; cases bs) (auto simp: utf8_tail_def split: if_splits)
qed

lemma from_utf8_lossy_complete:
  assumes "utf8_follow a = Some n" and "utf8_tail a n bs = n"
  shows "from_utf8_lossy (a # take n bs @ rest) = a # take n bs @ from_utf8_lossy rest"
  using assms utf8_tail_full [OF assms(2)] by (simp add: Let_def)

lemma from_utf8_lossy_replacement:
  "from_utf8_lossy (replacement @ rest) = replacement @ from_utf8_lossy rest"
proof -
  have "utf8_tail 239 (Suc (Suc 0)) [191, 189] = Suc (Suc 0)"
    by (simp add: utf8_tail_def utf8_second_def utf8_cont_def)
  then have "utf8_tail 239 2 [191, 189] = 2" by (simp only: numeral_2_eq_2)
  moreover have "utf8_follow 239 = Some 2"
    by (simp add: utf8_follow_def)
  ultimately show ?thesis
    using from_utf8_lossy_complete [of 239 2 "[191, 189]" rest] by (simp add: replacement_def)
qed

lemma utf8_valid_complete:
  assumes "utf8_follow a = Some n" and "utf8_tail a n bs = n"
  shows "utf8_valid (a # take n bs @ rest) \<longleftrightarrow> utf8_valid rest"
  using assms utf8_tail_full [OF assms(2)] by simp

lemma utf8_valid_replacement: "utf8_valid (replacement @ rest) \<longleftrightarrow> utf8_valid rest"
proof -
  have "utf8_tail 239 (Suc (Suc 0)) [191, 189] = Suc (Suc 0)"
    by (simp add: utf8_tail_def utf8_second_def utf8_cont_def)
  then have "utf8_tail 239 2 [191, 189] = 2" by (simp only: numeral_2_eq_2)
  moreover have "utf8_follow 239 = Some 2"
    by (simp add: utf8_follow_def)
  ultimately show ?thesis
    using utf8_valid_complete [of 239 2 "[191, 189]" rest] by (simp add: replacement_def)
qed

text \<open>What the lossy decoding gives is well formed.\<close>

lemma utf8_valid_lossy: "utf8_valid (from_utf8_lossy bs)"
proof (induction bs rule: from_utf8_lossy.induct)
  case (2 a bs)
  show ?case
  proof (cases "utf8_follow a")
    case None
    with 2 show ?thesis by (simp add: utf8_valid_replacement)
  next
    case (Some n)
    note IH = "2.IH"(2) [OF Some refl]
    show ?thesis
    proof (cases "utf8_tail a n bs = n")
      case True
      from utf8_valid_complete [OF Some True] IH True show ?thesis by (simp add: Some)
    next
      case False
      with IH show ?thesis by (simp add: Some Let_def utf8_valid_replacement)
    qed
  qed
qed simp

lemma from_utf8_lossy_valid: "utf8_valid bs \<Longrightarrow> from_utf8_lossy bs = bs"
proof (induction bs rule: utf8_valid.induct)
  case (2 a bs)
  then obtain n where "utf8_follow a = Some n" "utf8_tail a n bs = n" "utf8_valid (drop n bs)"
    by (auto split: option.splits)
  with 2 show ?case by (simp add: Let_def)
qed simp

lemma from_utf8_lossy_idem: "from_utf8_lossy (from_utf8_lossy bs) = from_utf8_lossy bs"
  by (simp add: from_utf8_lossy_valid utf8_valid_lossy)

lemma from_utf8_lossy_eq_iff: "from_utf8_lossy bs = bs \<longleftrightarrow> utf8_valid bs"
  using from_utf8_lossy_valid utf8_valid_lossy by metis

text \<open>Well-formed text as a path of Windows: nothing is replaced in it.\<close>

lemma wtf8_to_string_lossy_step:
  "a \<noteq> 237 \<Longrightarrow> wtf8_to_string_lossy (a # bs) = a # wtf8_to_string_lossy bs"
  by (cases "a # bs" rule: wtf8_to_string_lossy.cases) auto

lemma wtf8_to_string_lossy_plain:
  "(\<And>x. x \<in> set xs \<Longrightarrow> x < 192) \<Longrightarrow> wtf8_to_string_lossy (xs @ bs) = xs @ wtf8_to_string_lossy bs"
proof (induction xs)
  case (Cons x xs)
  then have "x < 192" by simp
  then have "x \<noteq> 237" by auto
  with Cons show ?case by (simp add: wtf8_to_string_lossy_step)
qed simp

lemma utf8_conts_bytes: "utf8_conts n bs = n \<Longrightarrow> x \<in> set (take n bs) \<Longrightarrow> x < 192"
  by (induction n bs rule: utf8_conts.induct) (auto simp: utf8_cont_def split: if_splits)

lemma utf8_second_less: "utf8_second a b \<Longrightarrow> b < 192"
  by (auto simp: utf8_second_def utf8_cont_def word_less_nat_alt word_le_nat_alt split: if_splits)

lemma utf8_tail_bytes:
  assumes "utf8_tail a n bs = n" and "x \<in> set (take n bs)"
  shows "x < 192"
  using assms utf8_conts_bytes [of "n - 1" "tl bs" x] utf8_second_less [of a]
  by (cases n; cases bs) (auto simp: utf8_tail_def split: if_splits)

lemma wtf8_to_string_lossy_char:
  assumes "utf8_follow a = Some n" and "utf8_tail a n bs = n"
  shows "wtf8_to_string_lossy (a # bs) = a # take n bs @ wtf8_to_string_lossy (drop n bs)"
proof -
  have "wtf8_to_string_lossy (a # bs) = a # wtf8_to_string_lossy bs"
  proof (cases "a = 237")
    case True
    with assms(1) have "n = Suc (Suc 0)" by (simp add: utf8_follow_def)
    with assms(2) True obtain b c rest where "bs = b # c # rest" "b < 160"
      by (cases bs; cases "tl bs") (auto simp: utf8_tail_def utf8_second_def split: if_splits)
    then have "bs = b # c # rest" "\<not> 160 \<le> b" by (simp_all only: not_le)
    then show ?thesis by simp
  qed (rule wtf8_to_string_lossy_step)
  then show ?thesis
    using wtf8_to_string_lossy_plain [of "take n bs" "drop n bs"] utf8_tail_bytes [OF assms(2)]
    by simp
qed

lemma wtf8_to_string_lossy_valid: "utf8_valid bs \<Longrightarrow> wtf8_to_string_lossy bs = bs"
proof (induction bs rule: utf8_valid.induct)
  case (2 a bs)
  then obtain n where "utf8_follow a = Some n" "utf8_tail a n bs = n" "utf8_valid (drop n bs)"
    by (auto split: option.splits)
  with 2 show ?case by (simp add: wtf8_to_string_lossy_char)
qed simp

text \<open>WTF-8, in which a path of Windows is encoded: UTF-8 and surrogates.\<close>

definition surrogate :: "bytes \<Rightarrow> bool" where
  "surrogate s \<longleftrightarrow> (\<exists>b c. s = [237, b, c] \<and> 160 \<le> b \<and> b < 192 \<and> utf8_cont c)"

inductive wtf8 :: "bytes \<Rightarrow> bool" where
  wtf8_nil: "wtf8 []"
| wtf8_char: "utf8_follow a = Some n \<Longrightarrow> utf8_tail a n bs = n \<Longrightarrow> wtf8 (drop n bs) \<Longrightarrow> wtf8 (a # bs)"
| wtf8_surrogate: "surrogate s \<Longrightarrow> wtf8 bs \<Longrightarrow> wtf8 (s @ bs)"

lemma utf8_valid_wtf8: "wtf8 p \<Longrightarrow> utf8_valid (wtf8_to_string_lossy p)"
proof (induction rule: wtf8.induct)
  case (wtf8_char a n bs)
  then show ?case
    using utf8_valid_complete [OF wtf8_char.hyps(1,2)] by (simp add: wtf8_to_string_lossy_char)
next
  case (wtf8_surrogate s bs)
  then show ?case by (auto simp: surrogate_def utf8_valid_replacement)
qed simp

definition path_wf :: "platform \<Rightarrow> bytes \<Rightarrow> bool" where
  "path_wf cfg p \<longleftrightarrow> cfg = Windows \<longrightarrow> wtf8 p"

lemma path_to_string_lossy_valid: "utf8_valid p \<Longrightarrow> path_to_string_lossy cfg p = p"
  by (simp add: path_to_string_lossy_def wtf8_to_string_lossy_valid from_utf8_lossy_valid)

lemma utf8_valid_path: "path_wf cfg p \<Longrightarrow> utf8_valid (path_to_string_lossy cfg p)"
  by (simp add: path_to_string_lossy_def path_wf_def utf8_valid_wtf8 utf8_valid_lossy)

lemma path_to_string_lossy_eq_iff:
  "path_wf cfg p \<Longrightarrow> path_to_string_lossy cfg p = p \<longleftrightarrow> utf8_valid p"
  using utf8_valid_path path_to_string_lossy_valid by metis

end
