(* ===== verification/Uri.thy ===== *)
theory Uri
  imports Token_Codecs Utf8
begin

text \<open>
  The canonical URI form of a locator (\<open>crates/core/src/uri.rs\<close>): the layer encoder and parser, and
  \<open>to_uri\<close> and \<open>from_uri\<close> over the chain of layers. A path is coded as its bytes on Unix, and as text
  elsewhere, where what is not text is lost.

  The layer codec is a \<open>piece_codec\<close> for the separator \<open>|\<close>. From it, parsing what the encoder
  writes gives the locator back (\<open>parse_layers_encode\<close>). The last section says what the parser can
  return: only locators that the encoder can write (\<open>from_uri_ok\<close>).
\<close>

section \<open>Layers\<close>

definition path_to_bytes :: "platform \<Rightarrow> bytes \<Rightarrow> bytes" where
  "path_to_bytes cfg p = (if cfg = Unix then p else path_to_string_lossy cfg p)"

definition bytes_to_path :: "platform \<Rightarrow> bytes \<Rightarrow> bytes" where
  "bytes_to_path cfg b = (if cfg = Unix then b else from_utf8_lossy b)"

fun layer_encode :: "'k codec_env \<Rightarrow> 'k layer \<Rightarrow> string" where
  "layer_encode K (FileLayer path) = ''file:'' @ pct_encode (path_to_bytes (ce_platform K) path)"
| "layer_encode K (DirectoryLayer path) = ''dir:'' @ pct_encode (path_to_bytes (ce_platform K) path)"
| "layer_encode K (RangeLayer start len) = ''range:'' @ show_word start @ '','' @ show_word len"
| "layer_encode K (ContainerLayer format) = ''container:'' @ container_token format"
| "layer_encode K (VolumeLayer scheme index guid) =
     ''volume:'' @ volume_token scheme @ '','' @ show_word index
       @ (case guid of None \<Rightarrow> [] | Some g \<Rightarrow> '','' @ guid_hex g)"
| "layer_encode K (EncryptionLayer scheme) = ''encryption:'' @ encryption_token scheme"
| "layer_encode K (SnapshotLayer (VssStore i)) = ''snapshot:vss,'' @ show_word i"
| "layer_encode K (SnapshotLayer (ApfsXid x)) = ''snapshot:apfs,'' @ show_word x"
| "layer_encode K (FsLayer kind at) = ''fs:'' @ fk_as_str K kind @ '','' @ node_addr_encode at"
| "layer_encode K (StreamLayer s) = ''stream:'' @ stream_token s"
| "layer_encode K (ArchiveLayer None) = ''archive:''"
| "layer_encode K (ArchiveLayer (Some i)) = ''archive:'' @ show_word i"

definition parse_range :: "string \<Rightarrow> string \<Rightarrow> 'k layer vfs_result" where
  "parse_range body s =
     res_bind (ok_or (uri_err ''range needs start,len'' s) (split_once CHR '','' body)) (\<lambda>(a, b).
     res_bind (u64_field a s) (\<lambda>start.
     res_bind (u64_field b s) (\<lambda>len. Inr (RangeLayer start len))))"

definition parse_volume :: "string \<Rightarrow> string \<Rightarrow> 'k layer vfs_result" where
  "parse_volume body s =
     (let it = split_on CHR '','' body
      in res_bind (parse_volume_scheme (next_or_empty it) s) (\<lambda>scheme.
         res_bind (case tl it of [] \<Rightarrow> Inl (uri_err ''volume needs index'' s)
                   | i # _ \<Rightarrow> usize_field i s) (\<lambda>index.
         res_bind (case tl (tl it) of [] \<Rightarrow> Inr None
                   | g # _ \<Rightarrow> res_bind (parse_guid g s) (\<lambda>x. Inr (Some x))) (\<lambda>guid.
           Inr (VolumeLayer scheme index guid)))))"

definition parse_snapshot :: "string \<Rightarrow> string \<Rightarrow> 'k layer vfs_result" where
  "parse_snapshot body s =
     res_bind (ok_or (uri_err ''snapshot needs kind,id'' s) (split_once CHR '','' body)) (\<lambda>(kind, num).
       if kind = ''vss'' then
         res_bind (usize_field num s) (\<lambda>i. Inr (SnapshotLayer (VssStore i)))
       else if kind = ''apfs'' then
         res_bind (u64_field num s) (\<lambda>x. Inr (SnapshotLayer (ApfsXid x)))
       else Inl (uri_err ''unknown snapshot kind'' s))"

definition parse_fs :: "'k codec_env \<Rightarrow> string \<Rightarrow> string \<Rightarrow> 'k layer vfs_result" where
  "parse_fs K body s =
     res_bind (ok_or (uri_err ''fs needs kind,addr'' s) (split_once CHR '','' body)) (\<lambda>(kind, at).
     res_bind (parse_fs_kind K kind s) (\<lambda>k.
     res_bind (parse_node_addr at s) (\<lambda>a. Inr (FsLayer k a))))"

definition layer_parse :: "'k codec_env \<Rightarrow> string \<Rightarrow> 'k layer vfs_result" where
  "layer_parse K s =
     res_bind (ok_or (uri_err ''layer missing tag'' s) (split_once CHR '':'' s)) (\<lambda>(tag, body).
       if tag = ''file'' \<or> tag = ''os'' then
         res_bind (pct_decode body) (\<lambda>b. Inr (FileLayer (bytes_to_path (ce_platform K) b)))
       else if tag = ''dir'' then
         res_bind (pct_decode body) (\<lambda>b. Inr (DirectoryLayer (bytes_to_path (ce_platform K) b)))
       else if tag = ''range'' then parse_range body s
       else if tag = ''container'' then
         res_bind (parse_container body s) (\<lambda>f. Inr (ContainerLayer f))
       else if tag = ''volume'' then parse_volume body s
       else if tag = ''encryption'' then
         res_bind (parse_encryption body s) (\<lambda>e. Inr (EncryptionLayer e))
       else if tag = ''snapshot'' then parse_snapshot body s
       else if tag = ''fs'' then parse_fs K body s
       else if tag = ''stream'' then
         res_bind (parse_stream body s) (\<lambda>i. Inr (StreamLayer i))
       else if tag = ''archive'' then
         (if body = [] then Inr (ArchiveLayer None)
          else res_bind (usize_field body s) (\<lambda>i. Inr (ArchiveLayer (Some i))))
       else Inl (uri_err ''unknown layer tag'' s))"

section \<open>Locators\<close>

definition uri_scheme :: string where
  "uri_scheme = ''loc:''"

definition legacy_scheme :: string where
  "legacy_scheme = ''fvfs:''"

text \<open>The loop of \<open>to_uri\<close>: the separator goes before every layer but the first.\<close>

fun uri_layers :: "'k codec_env \<Rightarrow> nat \<Rightarrow> 'k layer list \<Rightarrow> string" where
  "uri_layers K i [] = []"
| "uri_layers K i (l # ls) =
     (if i > 0 then ''|'' else []) @ layer_encode K l @ uri_layers K (Suc i) ls"

definition to_uri :: "'k codec_env \<Rightarrow> 'k locator \<Rightarrow> string" where
  "to_uri K spec = uri_scheme @ uri_layers K 0 (locator_layers spec)"

fun push_layers :: "'k codec_env \<Rightarrow> 'k locator \<Rightarrow> string list \<Rightarrow> 'k locator vfs_result" where
  "push_layers K spec [] = Inr spec"
| "push_layers K spec (l # ls) =
     res_bind (layer_parse K l) (\<lambda>x. push_layers K (locator_push spec x) ls)"

definition from_uri :: "'k codec_env \<Rightarrow> string \<Rightarrow> 'k locator vfs_result" where
  "from_uri K s =
     res_bind (ok_or (uri_err ''missing loc: scheme'' s)
        (case strip_prefix uri_scheme s of Some rest \<Rightarrow> Some rest
         | None \<Rightarrow> strip_prefix legacy_scheme s)) (\<lambda>rest.
       case split_on CHR ''|'' rest of
         [] \<Rightarrow> Inl (uri_err ''empty spec'' s)
       | first # layers \<Rightarrow>
           res_bind (layer_parse K first) (\<lambda>l. push_layers K (locator_root l) layers))"

text \<open>The serde forms. A format is what it does with a string: \<open>serialize_str\<close>, and \<open>s\<close>, the result of
  deserializing a string from it; \<open>custom\<close> makes the format's error of a message.\<close>

definition serialize_locator :: "'k codec_env \<Rightarrow> (string \<Rightarrow> 'e + 'o) \<Rightarrow> 'k locator \<Rightarrow> 'e + 'o" where
  "serialize_locator K serialize_str spec = serialize_str (to_uri K spec)"

definition deserialize_locator ::
    "'k codec_env \<Rightarrow> (string \<Rightarrow> 'e) \<Rightarrow> 'e + string \<Rightarrow> 'e + 'k locator" where
  "deserialize_locator K custom s =
     res_bind s (\<lambda>uri. res_map_err (\<lambda>e. custom (vfs_error_display e)) (from_uri K uri))"

section \<open>The layer codec\<close>

text \<open>A path that the codec carries: any on Unix, elsewhere one that is text.\<close>

definition path_ok :: "platform \<Rightarrow> bytes \<Rightarrow> bool" where
  "path_ok cfg p \<longleftrightarrow> cfg = Unix \<or> utf8_valid p"

lemma bytes_to_path_to_bytes [simp]:
  "path_ok cfg p \<Longrightarrow> bytes_to_path cfg (path_to_bytes cfg p) = p"
  by (auto simp: path_ok_def bytes_to_path_def path_to_bytes_def path_to_string_lossy_valid
      from_utf8_lossy_valid)

lemma path_ok_bytes_to_path [simp]: "path_ok cfg (bytes_to_path cfg b)"
  by (simp add: path_ok_def bytes_to_path_def utf8_valid_lossy)

definition layer_ok :: "'k codec_env \<Rightarrow> 'k layer \<Rightarrow> bool" where
  "layer_ok K l =
     (case l of
        FileLayer p \<Rightarrow> path_ok (ce_platform K) p
      | DirectoryLayer p \<Rightarrow> path_ok (ce_platform K) p
      | VolumeLayer _ _ (Some g) \<Rightarrow> guid_ok g
      | FsLayer k a \<Rightarrow> k \<in> set (fk_known K) \<and> node_addr_ok a
      | _ \<Rightarrow> True)"

definition locator_ok :: "'k codec_env \<Rightarrow> 'k locator \<Rightarrow> bool" where
  "locator_ok K spec \<longleftrightarrow> (\<forall>l \<in> set (locator_layers spec). layer_ok K l)"

lemma split_volume_body:
  "split_on CHR '','' (volume_token s @ CHR '','' # show_word i) = [volume_token s, show_word i]"
  "split_on CHR '','' (volume_token s @ CHR '','' # show_word i @ CHR '','' # guid_hex g)
     = [volume_token s, show_word i, guid_hex g]"
  by (simp_all add: split_on_append split_on_clean charset)

lemma parse_layer_bodies [codec_ok]:
  "parse_range (show_word a @ CHR '','' # show_word b) s = Inr (RangeLayer a b)"
  "parse_volume (volume_token v @ CHR '','' # show_word i) s = Inr (VolumeLayer v i None)"
  "guid_ok g \<Longrightarrow> parse_volume (volume_token v @ CHR '','' # show_word i @ CHR '','' # guid_hex g) s
     = Inr (VolumeLayer v i (Some g))"
  "parse_snapshot (CHR ''v'' # CHR ''s'' # CHR ''s'' # CHR '','' # show_word i) s
     = Inr (SnapshotLayer (VssStore i))"
  "parse_snapshot (CHR ''a'' # CHR ''p'' # CHR ''f'' # CHR ''s'' # CHR '','' # show_word x) s
     = Inr (SnapshotLayer (ApfsXid x))"
  by (simp_all add: parse_range_def parse_volume_def parse_snapshot_def split_once_append charset
      split_volume_body next_or_empty_def word_codecs guids.dec_enc)

lemma parse_fs_body [codec_ok]:
  assumes "fs_kinds_ok K" and "k \<in> set (fk_known K)" and "node_addr_ok a"
  shows "parse_fs K (fk_as_str K k @ CHR '','' # node_addr_encode a) s = Inr (FsLayer k a)"
proof -
  have "CHR '','' \<notin> set (fk_as_str K k)" using assms by (simp add: fs_kinds_ok_def)
  then show ?thesis
    using assms
    by (simp add: parse_fs_def split_once_append parse_fs_kind_known node_addrs.dec_enc)
qed

lemma show_word_nonempty [simp]: "show_word w \<noteq> []"
  by (simp add: show_word_def show_nat_nonempty)

lemma layer_parse_encode:
  assumes "fs_kinds_ok K" and "layer_ok K l"
  shows "layer_parse K (layer_encode K l) = Inr l"
  using assms
  by (cases "(K, l)" rule: layer_encode.cases)
     (auto simp: layer_parse_def layer_ok_def codec_ok word_codecs stream_ids.dec_enc
       split: option.splits)

lemma layer_encode_clean:
  assumes "fs_kinds_ok K" and "layer_ok K l"
  shows "CHR ''|'' \<notin> set (layer_encode K l)"
  using assms
  by (cases "(K, l)" rule: layer_encode.cases)
     (auto simp: charset layer_ok_def fs_kinds_ok_def split: option.splits)

interpretation layers: piece_codec "layer_encode K" "layer_parse K"
  "\<lambda>l. fs_kinds_ok K \<and> layer_ok K l" "CHR ''|''"
  for K :: "'k codec_env"
  by unfold_locales (auto simp: layer_parse_encode layer_encode_clean)

section \<open>Chains of layers\<close>

lemma uri_layers_Suc:
  "uri_layers K (Suc i) ls = concat (map (\<lambda>l. CHR ''|'' # layer_encode K l) ls)"
  by (induction ls arbitrary: i) auto

lemma join_with_concat:
  "join_with c (x # xs) = x @ concat (map (\<lambda>y. c # y) xs)"
  by (induction xs arbitrary: x) auto

lemma uri_layers_join: "uri_layers K 0 ls = join_with CHR ''|'' (map (layer_encode K) ls)"
  by (cases ls) (simp_all add: uri_layers_Suc join_with_concat comp_def del: join_with.simps(3))

lemma push_layers_collect:
  "push_layers K spec ls
     = res_bind (res_collect (layer_parse K) ls) (\<lambda>xs. Inr (foldl locator_push spec xs))"
proof (induction ls arbitrary: spec)
  case (Cons l ls)
  then show ?case
    by (cases "layer_parse K l"; cases "res_collect (layer_parse K) ls") simp_all
qed simp

text \<open>After the scheme, parsing is collecting the parsed layers of the split.\<close>

definition parse_layers :: "'k codec_env \<Rightarrow> string \<Rightarrow> 'k locator vfs_result" where
  "parse_layers K rest =
     res_bind (res_collect (layer_parse K) (split_on CHR ''|'' rest)) (\<lambda>ls. Inr (locator_of ls))"

lemma parse_layers_cases:
  "(case split_on CHR ''|'' rest of
      [] \<Rightarrow> Inl (uri_err ''empty spec'' s)
    | first # layers \<Rightarrow> res_bind (layer_parse K first) (\<lambda>l. push_layers K (locator_root l) layers))
   = parse_layers K rest"
proof -
  obtain first layers where sp: "split_on CHR ''|'' rest = first # layers"
    using split_on_nonempty by (metis neq_Nil_conv)
  show ?thesis
    by (cases "layer_parse K first"; cases "res_collect (layer_parse K) layers")
       (simp_all add: parse_layers_def sp push_layers_collect locator_of_def)
qed

lemma from_uri_eq:
  "from_uri K s =
     (case strip_prefix uri_scheme s of
        Some rest \<Rightarrow> parse_layers K rest
      | None \<Rightarrow> (case strip_prefix legacy_scheme s of
          Some rest \<Rightarrow> parse_layers K rest
        | None \<Rightarrow> Inl (uri_err ''missing loc: scheme'' s)))"
  unfolding from_uri_def parse_layers_cases by (auto split: option.splits)

lemma from_uri_loc [simp]: "from_uri K (uri_scheme @ rest) = parse_layers K rest"
  by (simp add: from_uri_eq)

lemma strip_loc_legacy [simp]: "strip_prefix uri_scheme (legacy_scheme @ rest) = None"
  by (simp add: uri_scheme_def legacy_scheme_def)

lemma from_uri_legacy [simp]: "from_uri K (legacy_scheme @ rest) = parse_layers K rest"
  by (simp add: from_uri_eq)

lemma parse_layers_encode:
  assumes "fs_kinds_ok K" and "locator_ok K l"
  shows "parse_layers K (uri_layers K 0 (locator_layers l)) = Inr l"
proof -
  have "res_collect (layer_parse K)
      (split_on CHR ''|'' (join_with CHR ''|'' (map (layer_encode K) (locator_layers l))))
      = Inr (locator_layers l)"
    using assms by (intro layers.collect_split_pieces) (auto simp: locator_ok_def)
  then show ?thesis by (simp add: parse_layers_def uri_layers_join locator_of_layers)
qed

section \<open>What the parser can return\<close>

lemma parse_volume_ok: "parse_volume body s = Inr l \<Longrightarrow> layer_ok K l"
  by (auto simp: parse_volume_def layer_ok_def res_bind_Inr_iff Let_def dest: parse_guid_ok
      split: list.splits)

lemma parse_fs_ok: "parse_fs K body s = Inr l \<Longrightarrow> layer_ok K l"
  by (auto simp: parse_fs_def layer_ok_def res_bind_Inr_iff
      dest: parse_fs_kind_InrD parse_node_addr_ok)

lemma parse_range_ok: "parse_range body s = Inr l \<Longrightarrow> layer_ok K l"
  by (auto simp: parse_range_def layer_ok_def res_bind_Inr_iff)

lemma parse_snapshot_ok: "parse_snapshot body s = Inr l \<Longrightarrow> layer_ok K l"
  by (auto simp: parse_snapshot_def layer_ok_def res_bind_Inr_iff split: if_splits)

lemma layer_ok_simps [simp]:
  "layer_ok K (FileLayer p) \<longleftrightarrow> path_ok (ce_platform K) p"
  "layer_ok K (DirectoryLayer p) \<longleftrightarrow> path_ok (ce_platform K) p" "layer_ok K (ContainerLayer f)"
  "layer_ok K (EncryptionLayer e)" "layer_ok K (StreamLayer i)" "layer_ok K (ArchiveLayer m)"
  by (simp_all add: layer_ok_def)

text \<open>One case per tag: the tests of the chain are resolved one at a time.\<close>

lemma layer_parse_ok: "layer_parse K s = Inr l \<Longrightarrow> layer_ok K l"
  unfolding layer_parse_def res_bind_Inr_iff
  apply (elim exE conjE)
  apply (simp only: split_beta)
  apply (simp split: if_split_asm add: res_bind_Inr_iff)
           apply (auto intro: parse_volume_ok parse_fs_ok parse_range_ok parse_snapshot_ok)
  done

lemma parse_layers_ok:
  assumes "parse_layers K rest = Inr l"
  shows "locator_ok K l"
proof -
  from assms obtain ls where ls: "res_collect (layer_parse K) (split_on CHR ''|'' rest) = Inr ls"
    and l: "l = locator_of ls" by (auto simp: parse_layers_def res_bind_Inr_iff)
  from res_collect_length [OF ls] have "ls \<noteq> []" using split_on_nonempty by auto
  moreover have "\<forall>x \<in> set ls. layer_ok K x"
    using res_collect_Inr_mem [OF ls] layer_parse_ok by blast
  ultimately show ?thesis by (simp add: locator_ok_def l locator_layers_of)
qed

lemma from_uri_InrD: "from_uri K s = Inr l \<Longrightarrow> \<exists>rest. parse_layers K rest = Inr l"
  by (auto simp: from_uri_eq split: option.splits)

lemma from_uri_ok: "from_uri K s = Inr l \<Longrightarrow> locator_ok K l"
  by (auto dest!: from_uri_InrD parse_layers_ok)

end
