(* ===== verification/Codec_Errors.thy ===== *)
theory Codec_Errors
  imports Uri "HOL-Library.Sublist"
begin

text \<open>
  Every failure of the locator parser is loud: a \<open>Decode\<close> error of the layer \<open>locator-uri\<close> whose
  byte snapshot shows the text that was refused. That is the whole input when it has no scheme, and
  otherwise the first layer that does not parse (\<open>rejected_text\<close>), or the percent-encoded component
  of that layer which does not decode. \<open>loud_in s r\<close> says so of the result \<open>r\<close> of a parser of the layer
  \<open>s\<close>; the rules in \<open>loud\<close> follow the shape of the parsers.
\<close>

definition loud_in :: "string \<Rightarrow> 'a vfs_result \<Rightarrow> bool" where
  "loud_in s r \<longleftrightarrow> (\<forall>e. r = Inl e \<longrightarrow>
     (\<exists>detail ctx. e = uri_err detail ctx \<and> (ctx = s \<or> sublist ctx s \<and> pct_decode ctx = Inl e)))"

named_theorems loud \<open>introduction rules for loud results\<close>

lemma loud_in_Inr [loud, simp]: "loud_in s (Inr a)"
  by (auto simp: loud_in_def)

lemma loud_in_err [loud]: "loud_in s (Inl (uri_err d s))"
  by (auto simp: loud_in_def)

lemma loud_in_ok_or [loud]: "loud_in s (ok_or (uri_err d s) m)"
  by (auto simp: loud_in_def)

lemma loud_in_bind [loud]:
  "loud_in s m \<Longrightarrow> (\<And>a. m = Inr a \<Longrightarrow> loud_in s (f a)) \<Longrightarrow> loud_in s (res_bind m f)"
  by (cases m) (auto simp: loud_in_def)

lemma loud_in_collect [loud]:
  "(\<And>x. x \<in> set xs \<Longrightarrow> loud_in s (f x)) \<Longrightarrow> loud_in s (res_collect f xs)"
  by (auto simp: loud_in_def dest!: res_collect_Inl)

lemma loud_in_if [loud]:
  "(b \<Longrightarrow> loud_in s m) \<Longrightarrow> (\<not> b \<Longrightarrow> loud_in s n) \<Longrightarrow> loud_in s (if b then m else n)"
  by simp

section \<open>Pieces of a text\<close>

lemma sublist_appL: "sublist x y \<Longrightarrow> sublist x (z @ y)"
  using sublist_append by blast

lemma sublist_appR: "sublist x y \<Longrightarrow> sublist x (y @ z)"
  using sublist_append by blast

lemma sublist_join: "x \<in> set xs \<Longrightarrow> sublist x (join_with c xs)"
proof (induction c xs rule: join_with.induct)
  case (3 c x y ys)
  then show ?case using sublist_appL [of _ _ "_ @ [c]"] by (auto intro: sublist_appR)
qed auto

lemma sublist_split_on: "x \<in> set (split_on c s) \<Longrightarrow> sublist x s"
  using sublist_join [of x "split_on c s" c] by (simp add: join_split_on)

lemma sublist_split_once:
  assumes "split_once c s = Some (a, b)"
  shows "sublist a s" and "sublist b s"
proof -
  from split_once_SomeD [OF assms] have s: "s = a @ c # b" by simp
  show "sublist a s" unfolding s by (simp add: sublist_appR)
  show "sublist b s" unfolding s using sublist_appL [of b b "a @ [c]"] by simp
qed

lemma sublist_strip_slash: "sublist (strip_slash s) s"
  using sublist_appL [of _ _ "''/''"]
  by (auto simp: strip_slash_def strip_prefix_Some_iff split: option.splits)

lemma sublist_splitn2: "x \<in> set (splitn2 c s) \<Longrightarrow> sublist x s"
  by (auto simp: splitn2_def dest: sublist_split_once split: option.splits)

lemma sublist_next_or_empty: "(\<And>x. x \<in> set it \<Longrightarrow> sublist x s) \<Longrightarrow> sublist (next_or_empty it) s"
  by (cases it) (auto simp: next_or_empty_def)

section \<open>The parsers\<close>

text \<open>A decoder's error shows the text it decodes, which has an escape.\<close>

lemma pct_escape_err: "pct_escape s hex = Inl e \<Longrightarrow> \<exists>d. e = uri_err d s"
  by (cases hex; cases "parse_unsigned 16 (of_bytes (the hex)) :: u8 option")
    (auto simp: pct_escape_def split: if_splits)

lemma pct_decode_spec_err: "pct_decode_spec s bs = Inl e \<Longrightarrow> (\<exists>d. e = uri_err d s) \<and> 37 \<in> set bs"
  by (induction s bs rule: pct_decode_spec.induct)
    (auto simp: res_bind_Inl_iff dest: pct_escape_err split: if_splits)

lemma pct_decode_err:
  assumes "pct_decode t = Inl e"
  shows "(\<exists>d. e = uri_err d t) \<and> CHR ''%'' \<in> set t"
proof
  from assms have err: "(\<exists>d. e = uri_err d t) \<and> 37 \<in> set (as_bytes t)"
    by (intro pct_decode_spec_err) (simp add: pct_decode_eq_spec)
  then show "\<exists>d. e = uri_err d t" by blast
  from err obtain c where c: "c \<in> set t" "char_byte c = 37" by (auto simp: as_bytes_def)
  then have "c = byte_char 37" by (metis byte_char_char_byte)
  moreover have "byte_char 37 = CHR ''%''" by (simp add: byte_char_def) code_simp
  ultimately show "CHR ''%'' \<in> set t" using c by simp
qed

lemma loud_pct_piece [loud]: "sublist t s \<Longrightarrow> loud_in s (pct_decode t)"
  using pct_decode_err unfolding loud_in_def by blast

lemma loud_pct_decode [loud]: "loud_in s (pct_decode s)"
  by (rule loud_pct_piece) simp

lemma loud_words [loud]:
  "loud_in s (parse_container t s)" "loud_in s (parse_volume_scheme t s)" "loud_in s (parse_encryption t s)"
  "loud_in s (parse_fs_kind K t s)" "loud_in s (u64_field t s)" "loud_in s (u32_field t s)"
  "loud_in s (usize_field t s)"
  unfolding parse_container_def parse_volume_scheme_def parse_encryption_def parse_fs_kind_def
    u64_field_def u32_field_def usize_field_def
  by (intro loud)+

lemma loud_guid [loud]: "loud_in s (parse_guid t s)"
  unfolding parse_guid_def guid_byte_def by (intro loud)

lemma loud_next_num [loud]: "loud_in s (next_num s name it)"
  by (cases it) (auto simp: next_num_def intro!: loud)

lemma loud_file_id [loud]: "loud_in s (parse_file_id t s)"
  unfolding parse_file_id_def
  by (cases "split_on CHR ''.'' t") (auto intro!: loud)

lemma loud_stream [loud]: "loud_in s (parse_stream t s)"
  unfolding parse_stream_def Let_def by (intro loud)

lemma loud_in_prod [loud]:
  "(\<And>a b. p = (a, b) \<Longrightarrow> loud_in s (f a b)) \<Longrightarrow> loud_in s (case p of (a, b) \<Rightarrow> f a b)"
  by (cases p) simp

lemma loud_comps: "sublist t s \<Longrightarrow> loud_in s (res_collect pct_decode (split_on c t))"
  by (intro loud) (meson sublist_split_on sublist_order.order_trans)

lemma loud_decode_comps [loud]: "sublist rest s \<Longrightarrow> loud_in s (decode_comps rest)"
  unfolding decode_comps_def
  by (intro loud_in_if loud_in_Inr loud_comps) (rule sublist_order.order_trans [OF sublist_strip_slash])

lemma tl_splitn2: "tl (splitn2 c s) = p # ps \<Longrightarrow> sublist p s"
  by (rule sublist_splitn2 [of p c]) (metis list.set_sel(2) list.sel(2) list.set_intros(1) list.distinct(1))

lemma loud_node_addr [loud]:
  assumes "sublist t s"
  shows "loud_in s (parse_node_addr t s)"
proof -
  have rest: "sublist (drop n t) s" for n
    using sublist_drop assms(1) sublist_order.order_trans by blast
  have piece: "sublist p s" if "tl (splitn2 CHR ''/'' (strip_slash (drop n t))) = p # ps" for n p ps
    using tl_splitn2 [OF that] sublist_strip_slash rest sublist_order.order_trans by blast
  show ?thesis
    using rest
    by (auto simp: parse_node_addr_def Let_def intro!: loud loud_comps dest!: piece split: list.splits)
qed

lemma loud_layer_parts:
  "loud_in s (parse_range body s)" "loud_in s (parse_volume body s)" "loud_in s (parse_snapshot body s)"
  unfolding parse_range_def parse_volume_def parse_snapshot_def Let_def
  by (auto intro!: loud split: list.splits)

lemma loud_parse_fs: "sublist body s \<Longrightarrow> loud_in s (parse_fs K body s)"
  unfolding parse_fs_def using sublist_split_once(2) sublist_order.order_trans
  by (auto intro!: loud) blast

lemma loud_layer_parse: "loud_in s (layer_parse K s)"
proof (cases "split_once CHR '':'' s")
  case None
  then show ?thesis by (simp add: layer_parse_def loud_in_err)
next
  case (Some p)
  obtain tag body where p: "p = (tag, body)" by (cases p)
  have body: "sublist body s" using Some sublist_split_once(2) unfolding p by fast
  show ?thesis
    unfolding layer_parse_def Some p ok_or.simps res_bind.simps prod.case
    by (intro loud loud_layer_parts loud_parse_fs body)
qed

section \<open>The text that is refused\<close>

definition scheme_rest :: "string \<Rightarrow> string option" where
  "scheme_rest s =
     (case strip_prefix uri_scheme s of Some rest \<Rightarrow> Some rest | None \<Rightarrow> strip_prefix legacy_scheme s)"

definition rejected_text :: "'k codec_env \<Rightarrow> string \<Rightarrow> string" where
  "rejected_text K s =
     (case scheme_rest s of
        None \<Rightarrow> s
      | Some rest \<Rightarrow>
          (case find (\<lambda>p. \<not> is_ok (layer_parse K p)) (split_on CHR ''|'' rest) of
             None \<Rightarrow> s
           | Some p \<Rightarrow> p))"

lemma res_collect_first_error:
  "res_collect f xs = Inl e \<Longrightarrow> \<exists>x. find (\<lambda>x. \<not> is_ok (f x)) xs = Some x \<and> f x = Inl e"
proof (induction xs)
  case (Cons x xs)
  then show ?case by (cases "f x") (auto simp: res_bind_Inl_iff)
qed simp

lemma from_uri_Inl:
  assumes "from_uri K s = Inl e"
  shows "scheme_rest s = None \<and> e = uri_err ''missing loc: scheme'' s
    \<or> scheme_rest s \<noteq> None \<and> layer_parse K (rejected_text K s) = Inl e"
proof (cases "scheme_rest s")
  case None
  with assms show ?thesis by (auto simp: from_uri_eq scheme_rest_def split: option.splits)
next
  case (Some rest)
  with assms have "parse_layers K rest = Inl e"
    by (auto simp: from_uri_eq scheme_rest_def split: option.splits)
  then have "res_collect (layer_parse K) (split_on CHR ''|'' rest) = Inl e"
    by (auto simp: parse_layers_def res_bind_Inl_iff)
  from res_collect_first_error [OF this] show ?thesis
    by (auto simp: rejected_text_def Some)
qed

lemma from_uri_shows:
  assumes "from_uri K s = Inl e"
  shows "\<exists>detail ctx. e = uri_err detail ctx \<and> (ctx = rejected_text K s
    \<or> sublist ctx (rejected_text K s) \<and> CHR ''%'' \<in> set ctx \<and> pct_decode ctx = Inl e)"
  using from_uri_Inl [OF assms]
proof
  assume "scheme_rest s = None \<and> e = uri_err ''missing loc: scheme'' s"
  then show ?thesis by (intro exI [of _ s] exI) (auto simp: rejected_text_def)
next
  assume "scheme_rest s \<noteq> None \<and> layer_parse K (rejected_text K s) = Inl e"
  with loud_layer_parse [of "rejected_text K s" K] pct_decode_err show ?thesis
    unfolding loud_in_def by blast
qed

end
