(* ===== verification/Uri_Properties.thy ===== *)
theory Uri_Properties
  imports Uri_Display
begin

text \<open>
  The properties of the locator codec: the round trip, what the parser accepts, how it fails, the
  legacy spellings, and the displayed form. \<open>demo_kinds\<close> is a registry of filesystem kinds with
  two entries, at which the hypotheses on the external registry are shown to hold.
\<close>

section \<open>A registry of kinds\<close>

definition demo_kinds :: "nat codec_env" where
  "demo_kinds = \<lparr>ce_platform = Unix, fk_known = [0, 1], fk_as_str = (\<lambda>k. if k = 0 then ''ntfs'' else ''ext4'')\<rparr>"

lemma demo_kinds_ok [simp]: "fs_kinds_ok demo_kinds"
  by (simp add: demo_kinds_def fs_kinds_ok_def)

lemma demo_kinds_plain [simp]: "fs_names_plain demo_kinds"
  by (simp add: demo_kinds_def fs_names_plain_def)

definition demo_locator :: "nat locator" where
  "demo_locator =
     locator_push (locator_push (locator_file [47, 101]) (VolumeLayer Gpt 1 (Some (Guid (replicate 16 7)))))
       (FsLayer 0 (BothAddr [[97], [37]] (NtfsRef 5 1)))"

lemma demo_locator_ok [simp]: "locator_ok demo_kinds demo_locator"
  by (simp add: demo_locator_def locator_file_def locator_ok_def layer_ok_def guid_ok_def
      node_addr_ok_def file_id_known_def demo_kinds_def path_ok_def)

section \<open>What comes back of any locator\<close>

text \<open>What the types of the code guarantee of a layer: a path is one of the platform, a GUID has
  sixteen bytes and a kind is a known one; the file id may be of a variant that this version does
  not know.\<close>

definition layer_typed :: "'k codec_env \<Rightarrow> 'k layer \<Rightarrow> bool" where
  "layer_typed K l =
     (case l of
        FileLayer p \<Rightarrow> path_wf (ce_platform K) p
      | DirectoryLayer p \<Rightarrow> path_wf (ce_platform K) p
      | VolumeLayer _ _ (Some g) \<Rightarrow> guid_ok g
      | FsLayer k a \<Rightarrow> k \<in> set (fk_known K)
      | _ \<Rightarrow> True)"

definition locator_typed :: "'k codec_env \<Rightarrow> 'k locator \<Rightarrow> bool" where
  "locator_typed K spec \<longleftrightarrow> (\<forall>l \<in> set (locator_layers spec). layer_typed K l)"

definition layer_ids_known :: "'k layer \<Rightarrow> bool" where
  "layer_ids_known l = (case l of FsLayer k a \<Rightarrow> node_addr_ok a | _ \<Rightarrow> True)"

text \<open>A layer with its path as the text that the platform makes of it; on Unix, the layer itself.\<close>

definition path_as_text :: "platform \<Rightarrow> bytes \<Rightarrow> bytes" where
  "path_as_text cfg p = (if cfg = Unix then p else path_to_string_lossy cfg p)"

definition layer_as_text :: "'k codec_env \<Rightarrow> 'k layer \<Rightarrow> 'k layer" where
  "layer_as_text K l =
     (case l of
        FileLayer p \<Rightarrow> FileLayer (path_as_text (ce_platform K) p)
      | DirectoryLayer p \<Rightarrow> DirectoryLayer (path_as_text (ce_platform K) p)
      | _ \<Rightarrow> l)"

lemma path_ok_as_text: "path_wf cfg p \<Longrightarrow> path_ok cfg (path_as_text cfg p)"
  by (simp add: path_ok_def path_as_text_def utf8_valid_path)

lemma path_to_bytes_as_text: "path_wf cfg p \<Longrightarrow> path_to_bytes cfg (path_as_text cfg p) = path_to_bytes cfg p"
  by (simp add: path_to_bytes_def path_as_text_def path_to_string_lossy_valid utf8_valid_path)

lemma layer_encode_as_text:
  "layer_typed K l \<Longrightarrow> layer_encode K (layer_as_text K l) = layer_encode K l"
  by (cases l) (simp_all add: layer_as_text_def layer_typed_def path_to_bytes_as_text)

lemma layer_ok_as_text: "layer_typed K l \<Longrightarrow> layer_ids_known l \<Longrightarrow> layer_ok K (layer_as_text K l)"
  by (cases l)
     (auto simp: layer_ok_def layer_as_text_def layer_typed_def layer_ids_known_def path_ok_as_text
       split: option.splits)

lemma layer_as_text_unix: "ce_platform K = Unix \<Longrightarrow> layer_as_text K l = l"
  by (cases l) (simp_all add: layer_as_text_def path_as_text_def)

lemma layer_encode_clean_typed:
  assumes "fs_kinds_ok K" and "layer_typed K l"
  shows "CHR ''|'' \<notin> set (layer_encode K l)"
  using assms
  by (cases "(K, l)" rule: layer_encode.cases)
     (auto simp: charset layer_typed_def fs_kinds_ok_def split: option.splits)

lemma future_file_id_error: "\<exists>e. parse_file_id (file_id_token (FutureFileId n)) ctx = Inl e"
  by (simp add: parse_file_id_def)

lemma future_node_addr_error:
  assumes "\<not> node_addr_ok a"
  shows "\<exists>e. parse_node_addr (node_addr_encode a) ctx = Inl e"
proof -
  have ascii: "char_byte CHR ''f'' < 128" "char_byte CHR ''b'' < 128" by (simp_all add: char_byte_def)
  obtain n e where "a = FileAddr (FutureFileId n) \<or> (\<exists>p. a = BothAddr p (FutureFileId n))"
    and "parse_file_id (file_id_token (FutureFileId n)) ctx = Inl e"
    using assms future_file_id_error
    by (cases a) (auto simp: node_addr_ok_def file_id_known_def split: file_id.splits)
  then show ?thesis
    using ascii by (auto simp: parse_node_addr_def splitn2_id_comps next_or_empty_def
        simp del: file_id_token.simps)
qed

lemma layer_parse_typed:
  assumes "fs_kinds_ok K" and "layer_typed K l"
  shows "layer_parse K (layer_encode K l) = Inr x \<longleftrightarrow> layer_ids_known l \<and> x = layer_as_text K l"
proof (cases "layer_ids_known l")
  case True
  with layer_parse_encode [OF assms(1) layer_ok_as_text] assms(2)
  have "layer_parse K (layer_encode K l) = Inr (layer_as_text K l)"
    by (simp add: layer_encode_as_text)
  with True show ?thesis by auto
next
  case False
  with assms(2) obtain k a where l: "l = FsLayer k a" and k: "k \<in> set (fk_known K)"
    and a: "\<not> node_addr_ok a"
    by (auto simp: layer_typed_def layer_ids_known_def split: layer.splits)
  have "CHR '','' \<notin> set (fk_as_str K k)" using assms(1) k by (simp add: fs_kinds_ok_def)
  with future_node_addr_error [OF a, of "layer_encode K l"] k assms(1) False show ?thesis
    by (auto simp: l layer_parse_def parse_fs_def split_once_append parse_fs_kind_known
        res_bind_Inr_iff)
qed

lemma collect_typed:
  assumes "fs_kinds_ok K" and "\<forall>l \<in> set ls. layer_typed K l"
  shows "res_collect (layer_parse K) (map (layer_encode K) ls) = Inr ys
    \<longleftrightarrow> (\<forall>l \<in> set ls. layer_ids_known l) \<and> ys = map (layer_as_text K) ls"
  using assms(2)
proof (induction ls arbitrary: ys)
  case (Cons l ls)
  with layer_parse_typed [OF assms(1), of l] show ?case by (auto simp: res_bind_Inr_iff)
qed auto

lemma parse_layers_typed:
  assumes "fs_kinds_ok K" and "locator_typed K l"
  shows "parse_layers K (uri_layers K 0 (locator_layers l)) = Inr l'
    \<longleftrightarrow> (\<forall>x \<in> set (locator_layers l). layer_ids_known x)
        \<and> locator_layers l' = map (layer_as_text K) (locator_layers l)"
proof -
  let ?ls = "locator_layers l"
  have ls: "\<forall>x \<in> set ?ls. layer_typed K x"
    using assms(2) by (simp add: locator_typed_def)
  have "split_on CHR ''|'' (join_with CHR ''|'' (map (layer_encode K) ?ls)) = map (layer_encode K) ?ls"
    using ls layer_encode_clean_typed [OF assms(1)] by (intro split_on_join) auto
  then have "parse_layers K (uri_layers K 0 ?ls) = Inr l'
      \<longleftrightarrow> (\<forall>x \<in> set ?ls. layer_ids_known x) \<and> l' = locator_of (map (layer_as_text K) ?ls)"
    using collect_typed [OF assms(1) ls] by (auto simp: parse_layers_def uri_layers_join res_bind_Inr_iff)
  moreover have "l' = locator_of (map (layer_as_text K) ?ls) \<longleftrightarrow> locator_layers l' = map (layer_as_text K) ?ls"
    by (metis locator_layers_of locator_of_layers locator_layers_nonempty map_is_Nil_conv)
  ultimately show ?thesis by simp
qed

section \<open>Properties\<close>

text \<open>C1: the canonical form is lossless on every locator that the codec carries. A locator of any
  depth, with any layers, whose filesystem kinds are registered, whose file ids are of the variants
  that this version of the codec knows, whose GUIDs have sixteen bytes, and whose file and directory
  paths are valid UTF-8 unless the codec is compiled for Unix (where they are any bytes), is read
  back exactly by \<open>from_uri\<close> from what \<open>to_uri\<close> wrote.\<close>

theorem locator_uri_roundtrip:
  assumes "fs_kinds_ok K" and "locator_ok K l"
  shows "from_uri K (to_uri K l) = Inr l"
  by (simp add: to_uri_def parse_layers_encode assms)

theorem locator_uri_roundtrip_witness:
  "from_uri demo_kinds (to_uri demo_kinds demo_locator) = Inr demo_locator"
  using locator_uri_roundtrip [of demo_kinds demo_locator] by simp

text \<open>C16: whatever \<open>from_uri\<close> accepts is a locator that the codec can carry: re-encoding it gives a
  canonical text that parses to the same locator, so a text that was accepted once, canonical or
  not, stays readable after it was normalised.\<close>

theorem from_uri_normalises:
  assumes "fs_kinds_ok K" and "from_uri K s = Inr l"
  shows "locator_ok K l \<and> from_uri K (to_uri K l) = Inr l"
  using from_uri_ok [OF assms(2)] parse_layers_encode [OF assms(1)] by (simp add: to_uri_def)

theorem from_uri_normalises_witness:
  "from_uri demo_kinds (to_uri demo_kinds (locator_root (RangeLayer 5 7)))
     = Inr (locator_root (RangeLayer 5 7))"
proof -
  have "from_uri demo_kinds ''fvfs:range:+5,07'' = Inr (locator_root (RangeLayer 5 7))"
    by (simp add: from_uri_def uri_scheme_def legacy_scheme_def layer_parse_def parse_range_def
        u64_field_def parse_unsigned_def unsigned_digits_def to_digit_def)
  from from_uri_normalises [OF demo_kinds_ok this] show ?thesis by simp
qed

text \<open>C23: what becomes of any locator, on any platform. Of a locator that the code's types allow,
  with file ids of a future version too, the canonical form is read back exactly when this version
  knows all its file ids, and is an error otherwise; what comes back is the locator with its paths
  as text, which on Unix is the locator itself, and never any other.\<close>

theorem to_uri_never_misread:
  assumes "fs_kinds_ok K" and "locator_typed K l"
  shows "(from_uri K (to_uri K l) = Inr l' \<longleftrightarrow>
      (\<forall>x \<in> set (locator_layers l). layer_ids_known x)
      \<and> locator_layers l' = map (layer_as_text K) (locator_layers l))
    \<and> (ce_platform K = Unix \<longrightarrow> map (layer_as_text K) (locator_layers l) = locator_layers l)"
  using parse_layers_typed [OF assms, of l'] by (simp add: to_uri_def layer_as_text_unix map_idI)

theorem to_uri_never_misread_witness:
  "\<forall>l'. from_uri demo_kinds (to_uri demo_kinds (locator_root (FsLayer 0 (FileAddr (FutureFileId 3))))) \<noteq> Inr l'"
  (is "\<forall>l'. from_uri _ (to_uri _ ?l) \<noteq> _")
proof -
  have "locator_typed demo_kinds ?l" "\<not> (\<forall>x \<in> set (locator_layers ?l). layer_ids_known x)"
    by (simp_all add: locator_typed_def layer_typed_def layer_ids_known_def
        node_addr_ok_def file_id_known_def demo_kinds_def)
  with to_uri_never_misread [of demo_kinds ?l] show ?thesis by simp
qed

text \<open>C33: on Windows the canonical form is not lossless. A path of Windows comes back with every
  unpaired surrogate replaced by U+FFFD, without an error, so it comes back as itself exactly when it
  is well-formed text.\<close>

theorem windows_path_becomes_text:
  assumes "ce_platform K = Windows" and "wtf8 p"
  shows "from_uri K (to_uri K (locator_file p)) = Inr (locator_file (wtf8_to_string_lossy p))
    \<and> (wtf8_to_string_lossy p = p \<longleftrightarrow> utf8_valid p)"
proof -
  have "from_utf8_lossy (wtf8_to_string_lossy p) = wtf8_to_string_lossy p"
    using assms(2) by (simp add: from_utf8_lossy_valid utf8_valid_wtf8)
  moreover have "split_on CHR ''|'' (''file:'' @ pct_encode b) = [''file:'' @ pct_encode b]" for b
    by (rule split_on_clean) (simp add: charset)
  ultimately have "from_uri K (to_uri K (locator_file p)) = Inr (locator_file (wtf8_to_string_lossy p))"
    using assms(1)
    by (simp add: to_uri_def locator_file_def parse_layers_def layer_parse_def codec_ok locator_of_def
        path_to_bytes_def bytes_to_path_def path_to_string_lossy_def locator_root_def del: split_on.simps)
  moreover have "wtf8_to_string_lossy p = p \<longleftrightarrow> utf8_valid p"
    using utf8_valid_wtf8 [OF assms(2)] wtf8_to_string_lossy_valid by metis
  ultimately show ?thesis by simp
qed

theorem windows_path_becomes_text_witness:
  "from_uri (demo_kinds\<lparr>ce_platform := Windows\<rparr>)
     (to_uri (demo_kinds\<lparr>ce_platform := Windows\<rparr>) (locator_file [67, 237, 160, 128]))
   = Inr (locator_file [67, 239, 191, 189])"
proof -
  have "surrogate [237, 160, 128]" by (simp add: surrogate_def utf8_cont_def)
  from wtf8_surrogate [OF this wtf8_nil] have s: "wtf8 [237, 160, 128]" by simp
  have "wtf8 [67, 237, 160, 128]"
    by (rule wtf8_char [where n = 0]) (use s in \<open>simp_all add: utf8_follow_def utf8_tail_def\<close>)
  from windows_path_becomes_text [OF _ this, of "demo_kinds\<lparr>ce_platform := Windows\<rparr>"] show ?thesis
    by (simp add: replacement_def)
qed

text \<open>C22: every rejection is loud and shows what was refused. The error is a \<open>Decode\<close> of the layer
  \<open>locator-uri\<close> whose byte snapshot is the first sixteen bytes of the refused text: the whole input
  when it has no scheme, else the first layer that does not parse, whose error this is, or a
  component of that layer that has a percent escape and does not decode. A deserializer that meets
  such a text fails with the message that shows these bytes.\<close>

theorem from_uri_errors_loud:
  assumes "from_uri K s = Inl e"
  shows "(if scheme_rest s = None then rejected_text K s = s else layer_parse K (rejected_text K s) = Inl e)
    \<and> (\<exists>detail ctx. (ctx = rejected_text K s
            \<or> sublist ctx (rejected_text K s) \<and> CHR ''%'' \<in> set ctx \<and> pct_decode ctx = Inl e)
        \<and> e = Decode ''locator-uri'' 0 detail (small_hex_new (take 16 (as_bytes ctx)))
        \<and> deserialize_locator K custom (Inr s) =
            Inl (custom (''decode failed in locator-uri at offset 0: '' @ detail @ '' (bytes: ''
              @ hex_display_loop True (take 16 (as_bytes ctx)) @ '')'')))"
proof
  show "if scheme_rest s = None then rejected_text K s = s else layer_parse K (rejected_text K s) = Inl e"
    using from_uri_Inl [OF assms] by (auto simp: rejected_text_def)
next
  from from_uri_shows [OF assms] obtain detail ctx where e: "e = uri_err detail ctx"
    and ctx: "ctx = rejected_text K s
      \<or> sublist ctx (rejected_text K s) \<and> CHR ''%'' \<in> set ctx \<and> pct_decode ctx = Inl e" by blast
  from e have d: "e = Decode ''locator-uri'' 0 detail (small_hex_new (take 16 (as_bytes ctx)))"
    by (simp add: uri_err_def small_hex_new_take)
  then have "deserialize_locator K custom (Inr s) =
      Inl (custom (''decode failed in locator-uri at offset 0: '' @ detail @ '' (bytes: ''
        @ hex_display_loop True (take 16 (as_bytes ctx)) @ '')''))"
    using assms
    by (simp add: deserialize_locator_def small_hex_display_def small_hex_as_bytes_new
        small_hex_cap_def show_word_zero)
  with d ctx show "\<exists>detail ctx. (ctx = rejected_text K s
          \<or> sublist ctx (rejected_text K s) \<and> CHR ''%'' \<in> set ctx \<and> pct_decode ctx = Inl e)
      \<and> e = Decode ''locator-uri'' 0 detail (small_hex_new (take 16 (as_bytes ctx)))
      \<and> deserialize_locator K custom (Inr s) =
          Inl (custom (''decode failed in locator-uri at offset 0: '' @ detail @ '' (bytes: ''
            @ hex_display_loop True (take 16 (as_bytes ctx)) @ '')''))" by blast
qed

text \<open>The message for a text without a scheme ends in its bytes, in hexadecimal.\<close>

theorem from_uri_errors_loud_witness:
  "\<exists>detail. deserialize_locator demo_kinds id (Inr ''file:/x'') =
     Inl (''decode failed in locator-uri at offset 0: '' @ detail @ '' (bytes: 66 69 6c 65 3a 2f 78)'')"
proof -
  have "from_uri demo_kinds ''file:/x'' = Inl (uri_err ''missing loc: scheme'' ''file:/x'')"
    by (simp add: from_uri_def uri_scheme_def legacy_scheme_def)
  note shown = from_uri_errors_loud [OF this, of id]
  have scheme: "scheme_rest ''file:/x'' = None"
    by (simp add: scheme_rest_def uri_scheme_def legacy_scheme_def)
  have plain: "\<not> (sublist ctx ''file:/x'' \<and> CHR ''%'' \<in> set ctx)" for ctx
    using set_mono_sublist [of ctx "''file:/x''"] by auto
  from shown scheme plain obtain detail where "deserialize_locator demo_kinds id (Inr ''file:/x'') =
      Inl (''decode failed in locator-uri at offset 0: '' @ detail @ '' (bytes: ''
        @ hex_display_loop True (take 16 (as_bytes ''file:/x'')) @ '')'')"
    unfolding id_apply by (simp only: if_True) metis
  moreover have "hex_display_loop True (take 16 (as_bytes ''file:/x'')) = ''66 69 6c 65 3a 2f 78''"
    by code_simp
  ultimately show ?thesis by auto
qed

text \<open>The legacy spellings are aliases and nothing else: a text under \<open>fvfs:\<close> parses as the same
  text under \<open>loc:\<close>, errors included, and an \<open>os:\<close> layer as the \<open>file:\<close> layer; the encoder emits
  only \<open>loc:\<close>.\<close>

lemma legacy_spellings:
  "from_uri K (''fvfs:'' @ rest) = from_uri K (''loc:'' @ rest)
   \<and> layer_parse K (''os:'' @ body) = layer_parse K (''file:'' @ body)
   \<and> take 4 (to_uri K l) = ''loc:''"
proof (intro conjI)
  show "from_uri K (''fvfs:'' @ rest) = from_uri K (''loc:'' @ rest)"
    using from_uri_legacy [of K rest] from_uri_loc [of K rest]
    by (simp add: uri_scheme_def legacy_scheme_def)
  show "layer_parse K (''os:'' @ body) = layer_parse K (''file:'' @ body)"
    by (simp add: layer_parse_def)
  show "take 4 (to_uri K l) = ''loc:''" by (simp add: to_uri_def uri_scheme_def)
qed

text \<open>C32: the displayed form is for people only: whatever the locator, \<open>from_uri\<close> refuses the text
  that \<open>Display\<close> prints, as long as no kind's name contains a colon.\<close>

theorem display_never_parses:
  assumes "fs_names_plain K"
  shows "\<exists>e. from_uri K (locator_display K l) = Inl e"
proof -
  define first rest where "first = hd (locator_layers l)"
    and "rest = display_loop K False (tl (locator_layers l))"
  have d: "locator_display K l = display_layer K first @ rest"
    by (simp add: display_head first_def rest_def)
  have bad: "\<exists>e. parse_layers K r = Inl e"
    if "strip_prefix (p @ '':'') (display_layer K first @ rest) = Some r" "p = ''loc'' \<or> p = ''fvfs''" for p r
  proof (cases "\<exists>k a. first = FsLayer k a")
    case True
    then have "\<exists>t. r = CHR ''/'' # t"
      using display_fs_scheme [OF assms, of p] that by auto
    then show ?thesis using slash_layers_error by blast
  next
    case False
    then have "strip_prefix (p @ '':'') (display_layer K first @ rest) = None"
      using that(2) by (intro display_not_scheme) (auto simp: uri_scheme_def legacy_scheme_def)
    with that(1) show ?thesis by simp
  qed
  show ?thesis
    using bad [of "''loc''"] bad [of "''fvfs''"]
    by (auto simp: from_uri_eq d uri_scheme_def legacy_scheme_def split: option.splits)
qed

theorem display_never_parses_witness:
  "\<exists>e. from_uri demo_kinds (locator_display demo_kinds demo_locator) = Inl e"
  by (rule display_never_parses) simp

text \<open>Percent encoding is lossless and safe. Any bytes, valid UTF-8 or not, decode back from their
  encoding; an encoding consists of letters, digits, \<open>._-\<close> and \<open>%\<close> only, so that no separator of
  the locator grammar can occur in it; and unreserved text is its own encoding.\<close>

lemma percent_encoding_lossless:
  "pct_decode (pct_encode bs) = Inr bs
   \<and> list_all (\<lambda>c. unreserved (char_byte c) \<or> c = CHR ''%'') (pct_encode bs)
   \<and> (list_all unreserved bs = (pct_encode bs = of_bytes bs))"
proof (intro conjI)
  show "pct_decode (pct_encode bs) = Inr bs" by (rule pct_decode_encode)
  show "list_all (\<lambda>c. unreserved (char_byte c) \<or> c = CHR ''%'') (pct_encode bs)"
    using pct_encode_value_chars by (auto simp: list_all_iff value_char_def)
  show "list_all unreserved bs = (pct_encode bs = of_bytes bs)"
  proof (induction bs)
    case (Cons b bs)
    have len: "length (pct_encode xs) \<ge> length xs" for xs
      by (induction xs) auto
    have "hex2_upper b @ pct_encode bs \<noteq> of_bytes bs"
    proof
      assume "hex2_upper b @ pct_encode bs = of_bytes bs"
      then have "length (hex2_upper b @ pct_encode bs) = length bs" by (simp add: of_bytes_def)
      with len [of bs] show False by simp
    qed
    with Cons.IH show ?case by auto
  qed simp
qed

text \<open>C34: the file-id parser narrows silently. A sequence number is read as a \<open>u64\<close> and cast to \<open>u16\<close>,
  and fields after it are ignored: a text whose number does not fit is accepted as another file's
  id instead of being rejected as malformed. The same holds for the generation of an ext inode and
  for the named streams of a file, whose \<open>u32\<close> is cast to \<open>u16\<close>. And the integer parsers take a
  leading plus sign, in a field as well as in the two digits of an escape, so that \<open>%+5\<close> is the byte 5.\<close>

theorem narrow_fields_wrap:
  "parse_file_id (''ntfsref.'' @ show_word entry @ ''.'' @ show_word (seq :: u64) @ ''.'' @ junk) ctx
     = Inr (NtfsRef entry (ucast seq))
   \<and> parse_file_id (''extinode.'' @ show_word entry @ ''.'' @ show_word (seq :: u64)) ctx
     = Inr (ExtInode entry (ucast seq))
   \<and> parse_stream (''named.'' @ show_word (m :: u32)) ctx = Inr (NamedStream (ucast m))
   \<and> parse_file_id ''ntfsref.5.65536'' ctx = Inr (NtfsRef 5 0)
   \<and> u64_field (CHR ''+'' # show_word w) ctx = Inr w
   \<and> pct_decode ''%+5'' = Inr [5]"
proof (intro conjI)
  show "parse_file_id (''ntfsref.'' @ show_word entry @ ''.'' @ show_word seq @ ''.'' @ junk) ctx
      = Inr (NtfsRef entry (ucast seq))"
    by (simp add: parse_file_id_def next_num_def codec_ok)
  show "parse_file_id (''extinode.'' @ show_word entry @ ''.'' @ show_word seq) ctx
      = Inr (ExtInode entry (ucast seq))"
    by (simp add: parse_file_id_def next_num_def codec_ok)
  show "parse_stream (''named.'' @ show_word m) ctx = Inr (NamedStream (ucast m))"
    by (simp add: parse_stream_def next_or_empty_def u32_field_def codec_ok)
  show "parse_file_id ''ntfsref.5.65536'' ctx = Inr (NtfsRef 5 0)"
    by (simp add: parse_file_id_def next_num_def u64_field_def parse_unsigned_def unsigned_digits_def
        to_digit_def unsigned_ucast_eq)
  obtain d ds where sw: "show_word w = d # ds" using show_word_nonempty by (metis neq_Nil_conv)
  have "unsigned_digits (CHR ''+'' # show_word w) = unsigned_digits (show_word w)"
    by (simp add: unsigned_digits_show_word) (simp add: unsigned_digits_def sw)
  then show "u64_field (CHR ''+'' # show_word w) ctx = Inr w"
    using parse_show_word [of w] by (simp add: u64_field_def parse_unsigned_def)
  have "char_of (43 :: nat) = CHR ''+''" by code_simp
  then show "pct_decode ''%+5'' = Inr [5]"
    by (simp add: pct_decode_eq_spec pct_escape_def slice_get_def utf8_valid2_def char_byte_def of_bytes_def
        byte_char_def parse_unsigned_def unsigned_digits_def to_digit_def)
qed

end
