(* ===== verification/Uri_Grammar.thy ===== *)
theory Uri_Grammar
  imports Uri_Properties
begin

text \<open>
  The grammar of the canonical URI (the module comment of \<open>crates/core/src/uri.rs\<close>): every byte of a
  value that is not a letter, a digit or one of \<open>._-\<close> is escaped, so the delimiters \<open>|\<close>, \<open>:\<close>, \<open>,\<close> and
  \<open>/\<close> appear as structure only. \<open>plain\<close> text has no delimiter; a body may have commas and slashes; a
  layer is a plain tag, a colon and a body.
\<close>

section \<open>Alphabets\<close>

definition plain :: "string \<Rightarrow> bool" where
  "plain s \<longleftrightarrow> list_all value_char s"

definition body_char :: "char \<Rightarrow> bool" where
  "body_char c \<longleftrightarrow> value_char c \<or> c = CHR '','' \<or> c = CHR ''/''"

definition body_text :: "string \<Rightarrow> bool" where
  "body_text s \<longleftrightarrow> list_all body_char s"


named_theorems alphabet \<open>which alphabet a text is over\<close>

lemma plain_Nil [alphabet]: "plain []" "body_text []"
  by (simp_all add: plain_def body_text_def)

lemma plain_append [alphabet]:
  "plain (s @ t) \<longleftrightarrow> plain s \<and> plain t" "body_text (s @ t) \<longleftrightarrow> body_text s \<and> body_text t"
  by (simp_all add: plain_def body_text_def)

lemma plain_Cons [alphabet]:
  "plain (c # s) \<longleftrightarrow> value_char c \<and> plain s" "body_text (c # s) \<longleftrightarrow> body_char c \<and> body_text s"
  by (simp_all add: plain_def body_text_def)

lemma plain_body: "plain s \<Longrightarrow> body_text s"
  by (auto simp: plain_def body_text_def body_char_def list_all_iff)

text \<open>On a character that is given, the alphabet is computed.\<close>

lemma value_char_code [alphabet]:
  "value_char c \<longleftrightarrow> (let n = of_char c :: nat in
     (48 \<le> n \<and> n \<le> 57) \<or> (65 \<le> n \<and> n \<le> 90) \<or> (97 \<le> n \<and> n \<le> 122) \<or> n \<in> {46, 95, 45, 37})"
proof -
  have eq: "char_byte c = w \<longleftrightarrow> of_char c = unat w" for w
    by (metis char_byte_byte_char byte_char_char_byte unat_char_byte word_unat_eq_iff)
  have "c = CHR ''%'' \<longleftrightarrow> of_char c = (37 :: nat)"
    using of_char_eq_iff [of c "CHR ''%''", where 'a = nat] by simp
  then show ?thesis
    by (simp add: value_char_def unreserved_def word_le_nat_alt unat_char_byte eq Let_def)
qed

declare body_char_def [alphabet]


section \<open>Tokens\<close>

lemma show_word_alphabet [alphabet]: "plain (show_word w)"
  using show_word_range [of _ w] by (auto simp: plain_def list_all_iff value_char_code Let_def)

lemma pct_encode_alphabet [alphabet]: "plain (pct_encode bs)"
  using pct_encode_value_chars by (auto simp: plain_def list_all_iff)

lemma hex2_lower_alphabet: "plain (hex2_lower b)"
  using hex_halves [of b]
  by (auto simp: plain_def hex2_lower_def value_char_code of_char_hex_digit Let_def)

lemma guid_hex_alphabet [alphabet]: "plain (guid_hex g)"
  using hex2_lower_alphabet by (cases g) (auto simp: plain_def list_all_iff)

lemma word_alphabet [alphabet]:
  "plain (container_token f)" "plain (volume_token v)" "plain (encryption_token e)"
  subgoal by (cases f; simp add: alphabet)
  subgoal by (cases v; simp add: alphabet)
  subgoal by (cases e; simp add: alphabet)
  done

lemma stream_token_alphabet [alphabet]: "plain (stream_token s)"
  by (cases s) (simp_all add: alphabet)

lemma file_id_token_alphabet [alphabet]: "plain (file_id_token fid)"
  by (cases fid) (simp_all add: alphabet)

lemma comps_encode_alphabet [alphabet]: "body_text (comps_encode cs)"
  by (induction cs) (simp_all add: comps_encode_def alphabet plain_body)

lemma node_addr_alphabet [alphabet]: "body_text (node_addr_encode a)"
  by (cases a) (simp_all add: alphabet plain_body)

section \<open>Layers\<close>







section \<open>The URI\<close>




end
