(* ===== verification/Bounded_Read.thy ===== *)
theory Bounded_Read
  imports Prelude
begin

text \<open>
  The bounded integer readers of \<open>crates/core/src/read.rs\<close>. One macro defines six functions; the
  model has the macro's body once, \<open>bounded_reader\<close>, over the width, the offset (\<open>usize\<close>, so
  \<open>off + width\<close> can overflow and is checked) and the byte-order conversion, and the six instances.
  The lemmas give the value of an in-range read in both byte orders, zero for every other window,
  the inverse of the \<open>to_be_bytes\<close> writer, and big-endian against little-endian.
\<close>

section \<open>Byte orders\<close>

fun be_value :: "bytes \<Rightarrow> nat" where
  "be_value [] = 0"
| "be_value (b # bs) = unat b * 256 ^ length bs + be_value bs"

definition from_be_bytes :: "bytes \<Rightarrow> 'a::len word" where
  "from_be_bytes bs = word_of_nat (be_value bs)"

definition from_le_bytes :: "bytes \<Rightarrow> 'a::len word" where
  "from_le_bytes bs = word_of_nat (be_value (rev bs))"

text \<open>The \<open>n\<close> bytes of a value, most significant first (\<open>to_be_bytes\<close>).\<close>

fun be_bytes :: "nat \<Rightarrow> nat \<Rightarrow> bytes" where
  "be_bytes 0 v = []"
| "be_bytes (Suc n) v = be_bytes n (v div 256) @ [word_of_nat (v mod 256)]"

definition u64_to_be_bytes :: "u64 \<Rightarrow> bytes" where
  "u64_to_be_bytes w = be_bytes 8 (unat w)"

section \<open>The macro and its instances\<close>

definition bounded_reader :: "nat \<Rightarrow> (bytes \<Rightarrow> 'a::len word) \<Rightarrow> bytes \<Rightarrow> usize \<Rightarrow> 'a word" where
  "bounded_reader width from_bytes data off =
     (case checked_add off (word_of_nat width) of
        None \<Rightarrow> 0
      | Some end_ \<Rightarrow>
          (case slice_get (unat off) (unat end_) data of
             Some window \<Rightarrow> from_bytes window
           | None \<Rightarrow> 0))"

definition be_u16 :: "bytes \<Rightarrow> usize \<Rightarrow> u16" where
  "be_u16 = bounded_reader 2 from_be_bytes"

definition be_u32 :: "bytes \<Rightarrow> usize \<Rightarrow> u32" where
  "be_u32 = bounded_reader 4 from_be_bytes"

definition be_u64 :: "bytes \<Rightarrow> usize \<Rightarrow> u64" where
  "be_u64 = bounded_reader 8 from_be_bytes"

definition le_u16 :: "bytes \<Rightarrow> usize \<Rightarrow> u16" where
  "le_u16 = bounded_reader 2 from_le_bytes"

definition le_u32 :: "bytes \<Rightarrow> usize \<Rightarrow> u32" where
  "le_u32 = bounded_reader 4 from_le_bytes"

definition le_u64 :: "bytes \<Rightarrow> usize \<Rightarrow> u64" where
  "le_u64 = bounded_reader 8 from_le_bytes"

lemmas bounded_readers = be_u16_def be_u32_def be_u64_def le_u16_def le_u32_def le_u64_def

section \<open>Values\<close>

lemma be_value_less: "be_value bs < 256 ^ length bs"
proof (induction bs)
  case (Cons b bs)
  have "unat b \<le> 255" using unat_byte_less [of b] by simp
  then have "unat b * 256 ^ length bs \<le> 255 * 256 ^ length bs" by (rule mult_right_mono) simp
  with Cons.IH
  have "unat b * 256 ^ length bs + be_value bs < 255 * 256 ^ length bs + 256 ^ length bs"
    by linarith
  then show ?case by simp
qed simp

lemma be_value_append: "be_value (xs @ ys) = be_value xs * 256 ^ length ys + be_value ys"
  by (induction xs) (auto simp: power_add algebra_simps)

lemma length_be_bytes [simp]: "length (be_bytes n v) = n"
  by (induction n arbitrary: v) auto

lemma be_value_be_bytes: "v < 256 ^ n \<Longrightarrow> be_value (be_bytes n v) = v"
proof (induction n arbitrary: v)
  case (Suc n)
  then have "v div 256 < 256 ^ n" by (simp add: less_mult_imp_div_less mult.commute)
  with Suc.IH show ?case by (simp add: be_value_append unat_of_nat)
qed simp

lemma from_be_bytes_u64: "from_be_bytes (u64_to_be_bytes w) = w"
proof -
  have "unat w < 256 ^ 8" using unsigned_less [of w] by simp
  then show ?thesis by (simp add: from_be_bytes_def u64_to_be_bytes_def be_value_be_bytes)
qed

lemma unat_from_be_bytes:
  "8 * length bs \<le> LENGTH('a::len) \<Longrightarrow> unat (from_be_bytes bs :: 'a word) = be_value bs"
proof -
  assume len: "8 * length bs \<le> LENGTH('a)"
  have "(256 :: nat) ^ length bs = 2 ^ (8 * length bs)" by (simp add: power_mult)
  also have "\<dots> \<le> 2 ^ LENGTH('a)" using len by simp
  finally have "be_value bs < 2 ^ LENGTH('a)"
    using be_value_less [of bs] by (rule order.strict_trans2 [rotated])
  then show ?thesis by (simp add: from_be_bytes_def unat_of_nat)
qed

lemma from_le_bytes_rev: "from_le_bytes bs = from_be_bytes (rev bs)"
  by (simp add: from_le_bytes_def from_be_bytes_def)

section \<open>In range, and out of range\<close>

lemma bounded_reader_in_range:
  assumes "unat off + width \<le> length data" and "length data < 2 ^ 64"
  shows "bounded_reader width f data off = f (take width (drop (unat off) data))"
proof -
  have w: "unat (word_of_nat width :: usize) = width"
    using assms by (simp add: unat_of_nat)
  have "checked_add off (word_of_nat width) = Some (off + word_of_nat width)"
    using assms by (simp add: checked_add_def w)
  moreover from checked_add_unat [OF this] have "unat (off + word_of_nat width) = unat off + width"
    by (simp add: w)
  ultimately show ?thesis using assms by (simp add: bounded_reader_def slice_get_def)
qed

lemma bounded_reader_out_of_range:
  assumes "length data < unat off + width" and "width < 2 ^ 64"
  shows "bounded_reader width f data off = 0"
proof (cases "checked_add off (word_of_nat width :: usize)")
  case None
  then show ?thesis by (simp add: bounded_reader_def)
next
  case (Some e)
  have "unat (word_of_nat width :: usize) = width" using assms by (simp add: unat_of_nat)
  with checked_add_unat [OF Some] have "unat e = unat off + width" by simp
  with Some assms show ?thesis by (simp add: bounded_reader_def slice_get_def)
qed

lemma bounded_reader_total:
  assumes "length data < 2 ^ 63" and "width < 2 ^ 64"
  shows "bounded_reader width f data off =
    (if unat off + width \<le> length data then f (take width (drop (unat off) data)) else 0)"
  using bounded_reader_in_range [of off width data f] bounded_reader_out_of_range [of data off width f] assms
  by (cases "unat off + width \<le> length data") simp_all

end
