(* ===== verification/Core_Properties.thy ===== *)
theory Core_Properties
  imports Locator Bounded_Read
begin

text \<open>
  The properties of the small parts of the core crate: the bounded integer readers, the error
  snapshot, extents, the sniff window's probes, the dispatch table and the locator's chain.
\<close>

section \<open>Bounded readers and snapshots\<close>

text \<open>C38: a bounded read never reads out of range. For each of the six readers, every byte slice that
  can exist and every offset, a window that lies inside the slice gives the big-endian or
  little-endian value of its bytes, and every other window, also one whose end overflows, gives 0.\<close>

theorem bounded_readers_total:
  assumes "length data < 2 ^ 63"
  shows "be_u16 data off = (if unat off + 2 \<le> length data
           then word_of_nat (be_value (take 2 (drop (unat off) data))) else 0)
    \<and> be_u32 data off = (if unat off + 4 \<le> length data
           then word_of_nat (be_value (take 4 (drop (unat off) data))) else 0)
    \<and> be_u64 data off = (if unat off + 8 \<le> length data
           then word_of_nat (be_value (take 8 (drop (unat off) data))) else 0)
    \<and> le_u16 data off = (if unat off + 2 \<le> length data
           then word_of_nat (be_value (rev (take 2 (drop (unat off) data)))) else 0)
    \<and> le_u32 data off = (if unat off + 4 \<le> length data
           then word_of_nat (be_value (rev (take 4 (drop (unat off) data)))) else 0)
    \<and> le_u64 data off = (if unat off + 8 \<le> length data
           then word_of_nat (be_value (rev (take 8 (drop (unat off) data)))) else 0)"
  using assms by (simp add: bounded_readers bounded_reader_total from_be_bytes_def from_le_bytes_def)

theorem bounded_readers_total_witness:
  "be_u16 [1, 2, 3] 1 = 515 \<and> le_u16 [1, 2, 3] 1 = 770 \<and> be_u32 [1, 2, 3] 1 = 0 \<and> be_u16 [1, 2, 3] (- 1) = 0"
proof -
  have "length [1, 2, 3 :: u8] < 2 ^ 63" by simp
  note r = bounded_readers_total [OF this, of 1] bounded_readers_total [OF this, of "- 1"]
  have "unat (- 1 :: usize) = 2 ^ 64 - 1" by (simp add: unat_minus_one')
  with r show ?thesis by simp
qed

text \<open>C40: an error shows the first sixteen offending bytes and no more. The snapshot of any bytes is
  their prefix of length at most 16; it is empty only for no bytes; its display is two digits a
  byte and one space between two bytes, so no stream makes a message long; and from the message of
  a decoding failure those sixteen bytes can be told: two messages that differ in nothing else are
  equal only when the bytes are.\<close>

theorem small_hex_is_prefix:
  "small_hex_as_bytes (small_hex_new bs) = take 16 bs
   \<and> (small_hex_is_empty (small_hex_new bs) \<longleftrightarrow> bs = [])
   \<and> length (small_hex_display (small_hex_new bs)) = 3 * min 16 (length bs) - 1
   \<and> length (small_hex_debug (small_hex_new bs)) = 10 + 2 * min 16 (length bs)
   \<and> (vfs_error_display (Decode layer off detail (small_hex_new bs))
        = vfs_error_display (Decode layer off detail (small_hex_new bs')) \<longleftrightarrow> take 16 bs = take 16 bs')"
proof -
  have "length (concat (map hex2_lower xs)) = 2 * length xs" for xs :: bytes
    by (induction xs) auto
  then show ?thesis
    by (auto simp: small_hex_as_bytes_new small_hex_is_empty_new small_hex_cap_def
        small_hex_display_def small_hex_debug_def hex_display_loop_length hex_display_loop_inject min_def)
qed

section \<open>Extents\<close>

text \<open>The allocated length of a run map is the sum of the runs' lengths, capped at the largest
  \<open>u64\<close>: it never wraps around. A dense source has its whole length allocated.\<close>

lemma allocated_len_saturates:
  "unat (allocated_len (extents_from_runs rs)) = min (sum_list (map (unat \<circ> ext_len) rs)) (2 ^ 64 - 1)
   \<and> allocated_len (extents_dense len) = len
   \<and> (extents_is_empty (extents_dense len) \<longleftrightarrow> len = 0)"
proof (intro conjI)
  show "unat (allocated_len (extents_from_runs rs)) = min (sum_list (map (unat \<circ> ext_len) rs)) (2 ^ 64 - 1)"
    using allocated_len_fold [of 0 rs] by (simp add: allocated_len_def)
  show "allocated_len (extents_dense len) = len"
    using unat_u64_less [of len] by (simp add: allocated_len_def extents_dense_def saturating_add_def)
  show "extents_is_empty (extents_dense len) \<longleftrightarrow> len = 0"
    by (simp add: extents_is_empty_def extents_dense_def)
qed

section \<open>Probing a sniff window\<close>

text \<open>C39: a probe compares exactly the bytes it names. On a window of slices that can exist,
  \<open>has_magic\<close> holds when the bytes from the offset on start with the magic, \<open>has_magic_from_end\<close>
  when the bytes that far from the tail's end do; any range outside the slices, overflowing or not,
  is a plain no.\<close>

theorem magic_probes_exact:
  assumes "length (sw_bytes w) < 2 ^ 63" and "length (sw_tail w) < 2 ^ 63" and "length magic < 2 ^ 63"
  shows "(has_magic w off magic \<longleftrightarrow> unat off + length magic \<le> length (sw_bytes w)
      \<and> take (length magic) (drop (unat off) (sw_bytes w)) = magic)
    \<and> (has_magic_from_end w off magic \<longleftrightarrow> length magic \<le> unat off \<and> unat off \<le> length (sw_tail w)
      \<and> take (length magic) (drop (length (sw_tail w) - unat off) (sw_tail w)) = magic)"
  using assms by (simp add: has_magic_iff has_magic_from_end_iff)

theorem magic_probes_exact_witness:
  "has_magic_from_end (sniff_window_with_tail 0 [1, 2] 9 [107, 111, 108, 121, 0]) 5 [107, 111, 108, 121]
   \<and> \<not> has_magic (sniff_window_with_tail 0 [1, 2] 9 []) (- 1) [1]"
proof -
  have m: "unat (- 1 :: usize) = 2 ^ 64 - 1" by (simp add: unat_minus_one')
  show ?thesis
    using magic_probes_exact [of "sniff_window_with_tail 0 [1, 2] 9 [107, 111, 108, 121, 0]"
        "[107, 111, 108, 121]" 5]
      magic_probes_exact [of "sniff_window_with_tail 0 [1, 2] 9 []" "[1]" "- 1"] m
    by (simp add: sniff_window_with_tail_def)
qed

section \<open>The locator's chain\<close>

text \<open>A locator is its list of layers. \<open>push\<close> appends one layer and keeps the rest; \<open>depth\<close> is the
  number of layers, \<open>base\<close> is the chain of the first one; and two locators with the same layers are
  equal, so an address says everything about its route.\<close>

lemma locator_is_its_layers:
  "locator_layers (locator_push l x) = locator_layers l @ [x]
   \<and> locator_depth l = length (locator_layers l)
   \<and> locator_layers (locator_base l) = [hd (locator_layers l)]
   \<and> last (locator_layers l) = loc_layer l
   \<and> (locator_layers l = locator_layers m \<longleftrightarrow> l = m)"
  by (simp add: locator_depth_layers locator_base_layers locator_layers_last locator_layers_inject)

end
