(* ===== verification/Adapters.thy ===== *)
theory Adapters
  imports Image_Source
begin

text \<open>
  The stateless adapters of \<open>crates/core/src/adapters.rs\<close>: \<open>SubRange\<close>, a byte window of a parent
  source, and \<open>FileSource\<close>, positioned reads of an operating system file.

  \<open>std::fs::File\<close> is modelled by what the adapter uses of it: the length its metadata reports (or
  the error of asking), and a positioned read that fails or transfers some of the bytes from the
  offset on: it may be short, as the standard library documents, but gives no byte only at the end of
  the file or for an empty buffer. Up to which size the system never reads short is part of the file
  (on Linux 0x7ffff000 bytes of a regular one; 0 stands for no promise at all), and so is how much it
  transfers otherwise. The file does not change while it is open.

  The section after each adapter proves that it meets \<open>byte_source\<close>: a file source presents the
  bytes of its file, a window of a source presents the window of its bytes; and that both are
  \<open>filling_source\<close>s up to the size that the system, or the parent, fills.
\<close>

section \<open>SubRange\<close>

record sub_range =
  sr_parent :: image_source
  sr_base :: u64
  sr_len :: u64

definition sub_range_new :: "dyn_source \<Rightarrow> u64 \<Rightarrow> u64 \<Rightarrow> sub_range" where
  "sub_range_new parent base len =
     (let available = saturating_sub (src_len parent) base
      in \<lparr>sr_parent = parent, sr_base = base, sr_len = min len available\<rparr>)"

definition sub_range_read_at :: "sub_range \<Rightarrow> u64 \<Rightarrow> bytes \<Rightarrow> nat vfs_result \<times> bytes" where
  "sub_range_read_at s offset buf =
     (if sr_len s \<le> offset then (Inr 0, buf)
      else
        let remaining = sr_len s - offset;
            want = min (length buf) (unat remaining)
        in case slice_get 0 want buf of
             None \<Rightarrow> (Inr 0, buf)
           | Some dst \<Rightarrow>
               let abs = saturating_add (sr_base s) offset
               in case src_read_at (sr_parent s) abs dst of
                    (res, dst') \<Rightarrow> (res, dst' @ drop want buf))"

text \<open>\<open>impl ImageSource for SubRange\<close>: \<open>len\<close>, \<open>read_at\<close> and \<open>source_id\<close> (the parent's, so that a
  block cache accounts by base source); the other methods are the provided ones.\<close>

definition sub_range_source :: "sub_range \<Rightarrow> image_source" where
  "sub_range_source s =
     (default_source (sr_len s) (sub_range_read_at s))\<lparr>src_id := src_id (sr_parent s)\<rparr>"

lemma sub_range_source_simps [simp]:
  "src_len (sub_range_source s) = sr_len s"
  "src_read_at (sub_range_source s) = sub_range_read_at s"
  "src_id (sub_range_source s) = src_id (sr_parent s)"
  by (simp_all add: sub_range_source_def)

text \<open>The reads a window makes of its parent stay in the window: the offset is the base plus the
  offset asked for, and the bytes asked for end at or before the end of the window.\<close>

lemma sub_range_read_at_eq:
  "sub_range_read_at s off buf =
     (if sr_len s \<le> off then (Inr 0, buf)
      else
        let want = min (length buf) (unat (sr_len s) - unat off);
            (res, dst') = src_read_at (sr_parent s) (saturating_add (sr_base s) off) (take want buf)
        in (res, dst' @ drop want buf))"
  by (auto simp: sub_range_read_at_def Let_def slices unat_sub word_le_nat_alt split: prod.splits)

lemma sub_range_new_simps [simp]:
  "sr_parent (sub_range_new p b n) = p"
  "sr_base (sub_range_new p b n) = b"
  "unat (sr_len (sub_range_new p b n)) = min (unat n) (unat (src_len p) - unat b)"
  by (simp_all add: sub_range_new_def Let_def unat_min unat_saturating_sub)

text \<open>The window a \<open>SubRange\<close> presents of the parent's bytes.\<close>

definition window_of :: "bytes \<Rightarrow> u64 \<Rightarrow> u64 \<Rightarrow> bytes" where
  "window_of content base n = take (unat n) (drop (unat base) content)"

lemma length_window_of [simp]:
  "length (window_of content base n) = min (length content - unat base) (unat n)"
  by (simp add: window_of_def)

text \<open>No saturation happens inside the window, since the window ends inside the parent.\<close>

lemma window_abs_offset:
  assumes "off < sr_len (sub_range_new p b n)"
  shows "unat (saturating_add b off) = unat b + unat off"
proof -
  have "unat off < unat (src_len p) - unat b"
    using assms by (simp add: word_less_nat_alt)
  moreover have "unat (src_len p) < 2 ^ 64" using unsigned_less [of "src_len p"] by simp
  ultimately show ?thesis by (simp add: unat_saturating_add)
qed

context fitting_source
begin

lemma window_fits:
  assumes "sr_parent s = src" and "sub_range_read_at s off buf = (res, buf')"
  shows "read_fits buf res buf'"
proof (cases "sr_len s \<le> off")
  case True
  with assms(2) show ?thesis by (auto simp: sub_range_read_at_eq)
next
  case False
  define want where "want = min (length buf) (unat (sr_len s) - unat off)"
  obtain q dst where q: "src_read_at src (saturating_add (sr_base s) off) (take want buf) = (q, dst)"
    by (cases "src_read_at src (saturating_add (sr_base s) off) (take want buf)")
  with assms False have "res = q" "buf' = dst @ drop want buf"
    by (simp_all add: sub_range_read_at_eq want_def Let_def)
  with source_fits [OF q] show ?thesis by (cases q) (auto simp: want_def)
qed

end

locale window_source = byte_source src content for src content +
  fixes base wlen :: u64
begin

lemma window_read_count:
  fixes off :: u64 and k :: nat
  assumes "off < sr_len (sub_range_new src base wlen)"
  defines "want \<equiv> min k (unat (sr_len (sub_range_new src base wlen)) - unat off)"
  shows "read_count content (unat base + unat off) want
           = read_count (window_of content base wlen) (unat off) k"
    and "read_count content (unat base + unat off) want = want"
  using assms by (auto simp: read_count_def content_len word_less_nat_alt)

lemma window_read_allowed:
  fixes off :: u64 and k :: nat
  assumes "off < sr_len (sub_range_new src base wlen)"
  defines "want \<equiv> min k (unat (sr_len (sub_range_new src base wlen)) - unat off)"
  shows "read_allowed content (unat base + unat off) want n
    \<longleftrightarrow> read_allowed (window_of content base wlen) (unat off) k n"
  using window_read_count(1) [OF assms(1), of k] by (simp add: read_allowed_def want_def)

lemma window_read_part:
  fixes off :: u64 and buf :: bytes
  assumes "off < sr_len (sub_range_new src base wlen)"
  defines "want \<equiv> min (length buf) (unat (sr_len (sub_range_new src base wlen)) - unat off)"
  assumes "n \<le> read_count content (unat base + unat off) want"
  shows "read_part content (unat base + unat off) n (take want buf) @ drop want buf
           = read_part (window_of content base wlen) (unat off) n buf"
proof -
  have "n \<le> want"
    using assms(3) by (simp only: want_def window_read_count(2) [OF assms(1)])
  moreover have "want \<le> length buf" "want \<le> unat wlen - unat off" by (auto simp: want_def)
  ultimately have n: "n \<le> want" "want \<le> length buf" "n \<le> unat wlen - unat off" by simp_all
  then have "take n (drop (unat off) (window_of content base wlen))
      = take n (drop (unat base + unat off) content)"
    by (simp add: window_of_def drop_take add.commute)
  moreover have "drop n (take want buf) @ drop want buf = drop n buf"
    using n(1) append_take_drop_id [of "want - n" "drop n buf"] by (simp add: drop_take)
  ultimately show ?thesis by (simp add: read_part_def)
qed

end

sublocale window_source \<subseteq> window: byte_source
  "sub_range_source (sub_range_new src base wlen)" "window_of content base wlen"
proof unfold_locales
  show "length (window_of content base wlen)
      = unat (src_len (sub_range_source (sub_range_new src base wlen)))"
    by (simp add: content_len min.commute)
next
  fix off buf n buf'
  assume r: "src_read_at (sub_range_source (sub_range_new src base wlen)) off buf = (Inr n, buf')"
  show "read_allowed (window_of content base wlen) (unat off) (length buf) n
      \<and> buf' = read_part (window_of content base wlen) (unat off) n buf"
  proof (cases "sr_len (sub_range_new src base wlen) \<le> off")
    case True
    then have "length (window_of content base wlen) \<le> unat off"
      by (simp add: word_le_nat_alt content_len min.commute)
    with True r show ?thesis
      by (auto simp: sub_range_read_at_eq read_allowed_past_end)
  next
    case False
    then have lt: "off < sr_len (sub_range_new src base wlen)" by simp
    define want where "want = min (length buf) (unat (sr_len (sub_range_new src base wlen)) - unat off)"
    obtain dst where p: "src_read_at src (saturating_add base off) (take want buf) = (Inr n, dst)"
      and b: "buf' = dst @ drop want buf"
      using r False unfolding want_def by (auto simp: sub_range_read_at_eq Let_def split: prod.splits)
    have "length (take want buf) = want" by (simp add: want_def)
    with read_chunk [OF p] window_abs_offset [OF lt]
    have chunk: "read_allowed content (unat base + unat off) want n"
      and dst: "dst = read_part content (unat base + unat off) n (take want buf)" by simp_all
    from window_read_part [OF lt, where buf = buf and n = n, folded want_def, OF read_allowed_le [OF chunk]]
      window_read_allowed [OF lt, of "length buf" n, folded want_def] chunk
    show ?thesis unfolding b dst by blast
  qed
next
  fix off buf res buf'
  assume "src_read_at (sub_range_source (sub_range_new src base wlen)) off buf = (res, buf')"
  then show "length buf' = length buf"
    by (auto simp: sub_range_read_at_eq Let_def dest!: read_keeps_length
        split: prod.splits if_splits)
qed

locale filling_window = filling_source src content lim for src content lim +
  fixes base wlen :: u64

sublocale filling_window \<subseteq> window_source src content base wlen
  by unfold_locales

sublocale filling_window \<subseteq> full: filling_source
  "sub_range_source (sub_range_new src base wlen)" "window_of content base wlen" lim
proof unfold_locales
  fix off buf n buf'
  assume r: "src_read_at (sub_range_source (sub_range_new src base wlen)) off buf = (Inr n, buf')"
    and le: "length buf \<le> lim"
  show "read_count (window_of content base wlen) (unat off) (length buf) \<le> n"
  proof (cases "sr_len (sub_range_new src base wlen) \<le> off")
    case True
    then show ?thesis by (simp add: word_le_nat_alt content_len min.commute read_count_def)
  next
    case False
    then have lt: "off < sr_len (sub_range_new src base wlen)" by simp
    define want where "want = min (length buf) (unat (sr_len (sub_range_new src base wlen)) - unat off)"
    obtain dst where p: "src_read_at src (saturating_add base off) (take want buf) = (Inr n, dst)"
      using r False unfolding want_def by (auto simp: sub_range_read_at_eq Let_def split: prod.splits)
    have want: "length (take want buf) = want" "want \<le> length buf" by (simp_all add: want_def)
    then have "read_count content (unat base + unat off) want \<le> n"
      using read_full [OF p] le window_abs_offset [OF lt] by simp
    then show ?thesis
      using window_read_count(1) [OF lt, of "length buf", folded want_def] by simp
  qed
qed

section \<open>FileSource\<close>

text \<open>
  \<open>os_file\<close> is the open \<open>std::fs::File\<close>: its length, its bytes, and where the operating system
  fails. \<open>os_read_at\<close> is \<open>FileExt::read_at\<close> (\<open>pread\<close>) or \<open>FileExt::seek_read\<close>: reads of up to
  \<open>of_whole\<close> bytes transfer what there is, larger ones what \<open>of_short\<close> says, at least one byte and at
  most what there is.
\<close>

record os_file =
  of_len :: u64
  of_byte :: "u64 \<Rightarrow> u8"
  of_metadata_fault :: "io_error option"
  of_read_fault :: "u64 \<Rightarrow> io_error option"
  of_whole :: nat
  of_short :: "u64 \<Rightarrow> nat \<Rightarrow> nat"

definition os_metadata_len :: "os_file \<Rightarrow> io_error + u64" where
  "os_metadata_len f =
     (case of_metadata_fault f of Some e \<Rightarrow> Inl e | None \<Rightarrow> Inr (of_len f))"

definition os_bytes :: "os_file \<Rightarrow> bytes" where
  "os_bytes f = map (\<lambda>i. of_byte f (word_of_nat i)) [0..<unat (of_len f)]"

definition os_transfer :: "os_file \<Rightarrow> u64 \<Rightarrow> nat \<Rightarrow> nat" where
  "os_transfer f off want =
     (let avail = read_count (os_bytes f) (unat off) want
      in if want \<le> of_whole f then avail else min avail (max 1 (of_short f off want)))"

definition os_read_at :: "os_file \<Rightarrow> bytes \<Rightarrow> u64 \<Rightarrow> (io_error + nat) \<times> bytes" where
  "os_read_at f buf off =
     (case of_read_fault f off of
        Some e \<Rightarrow> (Inl e, buf)
      | None \<Rightarrow>
          (let n = os_transfer f off (length buf)
           in (Inr n, read_part (os_bytes f) (unat off) n buf)))"

record file_source =
  fsrc_file :: os_file
  fsrc_len :: u64

definition file_source_from_file :: "os_file \<Rightarrow> file_source vfs_result" where
  "file_source_from_file f =
     res_bind (res_map_err (io_err ''metadata'') (os_metadata_len f))
       (\<lambda>len. Inr \<lparr>fsrc_file = f, fsrc_len = len\<rparr>)"

text \<open>\<open>os\<close> is the operating system's \<open>File::open\<close>, from a path to an open file.\<close>

definition file_source_open :: "(bytes \<Rightarrow> io_error + os_file) \<Rightarrow> bytes \<Rightarrow> file_source vfs_result" where
  "file_source_open os path =
     res_bind (res_map_err (io_err ''open'') (os path)) file_source_from_file"

definition file_source_read_at ::
    "platform \<Rightarrow> file_source \<Rightarrow> u64 \<Rightarrow> bytes \<Rightarrow> nat vfs_result \<times> bytes" where
  "file_source_read_at cfg s offset buf =
     (if fsrc_len s \<le> offset then (Inr 0, buf)
      else case cfg of
             Unix \<Rightarrow>
               (case os_read_at (fsrc_file s) buf offset of
                  (res, buf') \<Rightarrow> (res_map_err (io_err ''read_at'') res, buf'))
           | Windows \<Rightarrow>
               (case os_read_at (fsrc_file s) buf offset of
                  (res, buf') \<Rightarrow> (res_map_err (io_err ''seek_read'') res, buf'))
           | OtherPlatform \<Rightarrow> (Inl (Unsupported ''FileSource'' ''positioned read''), buf))"

definition file_source_source :: "platform \<Rightarrow> file_source \<Rightarrow> image_source" where
  "file_source_source cfg s = default_source (fsrc_len s) (file_source_read_at cfg s)"

text \<open>The source that \<open>from_file\<close> builds when the metadata can be read.\<close>

definition opened_file :: "os_file \<Rightarrow> file_source" where
  "opened_file f = \<lparr>fsrc_file = f, fsrc_len = of_len f\<rparr>"

lemma length_os_bytes [simp]: "length (os_bytes f) = unat (of_len f)"
  by (simp add: os_bytes_def)

lemma file_source_from_file_ok:
  "file_source_from_file f = Inr s \<longleftrightarrow> of_metadata_fault f = None \<and> s = opened_file f"
  by (auto simp: file_source_from_file_def os_metadata_len_def opened_file_def split: option.splits)

lemma opened_file_simps [simp]:
  "fsrc_file (opened_file f) = f" "fsrc_len (opened_file f) = of_len f"
  by (simp_all add: opened_file_def)

lemma os_transfer_allowed: "read_allowed (os_bytes f) (unat off) want (os_transfer f off want)"
  by (auto simp: read_allowed_def os_transfer_def Let_def)

lemma os_transfer_whole: "want \<le> of_whole f \<Longrightarrow> os_transfer f off want = read_count (os_bytes f) (unat off) want"
  by (simp add: os_transfer_def)

lemma os_read_at_length: "os_read_at f buf off = (res, buf') \<Longrightarrow> length buf' = length buf"
  using read_allowed_le [OF os_transfer_allowed [of f off "length buf"]]
  by (auto simp: os_read_at_def Let_def split: option.splits)

lemma os_read_at_ok:
  "os_read_at f buf off = (Inr n, buf') \<Longrightarrow>
     n = os_transfer f off (length buf) \<and> buf' = read_part (os_bytes f) (unat off) n buf"
  by (auto simp: os_read_at_def Let_def split: option.splits)

text \<open>A read of a file source is empty at or past the end, and a read of the file before it.\<close>

lemma file_source_read_cases:
  assumes "src_read_at (file_source_source cfg (opened_file f)) off buf = (Inr n, buf')"
  shows "n = (if of_len f \<le> off then 0 else os_transfer f off (length buf))"
    and "buf' = read_part (os_bytes f) (unat off) n buf"
  using assms
  by (auto simp: file_source_source_def file_source_read_at_def dest!: os_read_at_ok
      split: if_splits platform.splits prod.splits)

interpretation raw_window: window_source
  "file_source_source cfg (opened_file f)" "os_bytes f" base wlen
  for cfg :: platform and f :: os_file and base wlen :: u64
proof unfold_locales
  show "length (os_bytes f) = unat (src_len (file_source_source cfg (opened_file f)))"
    by (simp add: file_source_source_def)
next
  fix off buf n buf'
  assume r: "src_read_at (file_source_source cfg (opened_file f)) off buf = (Inr n, buf')"
  from file_source_read_cases [OF r]
  show "read_allowed (os_bytes f) (unat off) (length buf) n
      \<and> buf' = read_part (os_bytes f) (unat off) n buf"
    by (simp add: os_transfer_allowed read_allowed_past_end word_le_nat_alt)
next
  fix off buf res buf'
  assume "src_read_at (file_source_source cfg (opened_file f)) off buf = (res, buf')"
  then show "length buf' = length buf"
    by (auto simp: file_source_source_def file_source_read_at_def dest!: os_read_at_length
        split: if_splits platform.splits prod.splits)
qed

interpretation raw_filling: filling_window
  "file_source_source cfg (opened_file f)" "os_bytes f" "of_whole f" base wlen
  for cfg :: platform and f :: os_file and base wlen :: u64
proof unfold_locales
  fix off buf n buf'
  assume r: "src_read_at (file_source_source cfg (opened_file f)) off buf = (Inr n, buf')"
    and le: "length buf \<le> of_whole f"
  from file_source_read_cases(1) [OF r] le show "read_count (os_bytes f) (unat off) (length buf) \<le> n"
    by (simp add: os_transfer_whole read_count_def word_le_nat_alt)
qed

end
