(* ===== verification/Seek_Adapters.thy ===== *)
theory Seek_Adapters
  imports Adapters
begin

text \<open>
  The stateful adapters of \<open>crates/core/src/adapters.rs\<close>: \<open>SourceCursor\<close>, a \<open>Read + Seek\<close> view of
  a source, and \<open>SeekPoolSource\<close>, which goes the other way and serves positioned reads from a pool
  of \<open>Read + Seek\<close> readers behind mutexes.

  A stateful call returns the new state. The reader type of the pool is a parameter \<open>'r\<close> with its
  \<open>read\<close> and \<open>seek\<close>. The locale \<open>fitting_reader\<close> is what the pool needs of its readers to keep its
  own buffer straight; \<open>seekable_reader\<close> adds the contract of \<open>std::io::{Read, Seek}\<close> over a
  byte string: a read may be short, but gives no byte only at the end or for an empty buffer.
  \<open>SourceCursor\<close> provides both, \<open>SeekPoolSource\<close> is the client.
\<close>

section \<open>SourceCursor\<close>

datatype seek_from = SeekStart u64 | SeekEnd "64 word" | SeekCurrent "64 word"

record source_cursor =
  sc_src :: image_source
  sc_base :: u64
  sc_len :: u64
  sc_pos :: u64

definition source_cursor_new :: "dyn_source \<Rightarrow> u64 \<Rightarrow> u64 \<Rightarrow> source_cursor" where
  "source_cursor_new src base len =
     (let available = saturating_sub (src_len src) base
      in \<lparr>sc_src = src, sc_base = base, sc_len = min len available, sc_pos = 0\<rparr>)"

definition source_cursor_read ::
    "source_cursor \<Rightarrow> bytes \<Rightarrow> (io_error + nat) \<times> bytes \<times> source_cursor" where
  "source_cursor_read c buf =
     (if sc_len c \<le> sc_pos c then (Inr 0, buf, c)
      else
        let remaining = sc_len c - sc_pos c;
            want = min (length buf) (unat remaining)
        in case slice_get 0 want buf of
             None \<Rightarrow> (Inr 0, buf, c)
           | Some dst \<Rightarrow>
               let abs = saturating_add (sc_base c) (sc_pos c)
               in case src_read_at (sc_src c) abs dst of
                    (Inl e, dst') \<Rightarrow> (Inl (IoOther e), dst' @ drop want buf, c)
                  | (Inr n, dst') \<Rightarrow>
                      (Inr n, dst' @ drop want buf,
                       c\<lparr>sc_pos := saturating_add (sc_pos c) (word_of_nat n)\<rparr>))"

text \<open>The target is computed in \<open>i128\<close>, which holds every sum of a \<open>u64\<close> and an \<open>i64\<close>, so it is
  an \<open>int\<close> here; an \<open>i64\<close> is read as two's complement.\<close>

fun seek_target :: "source_cursor \<Rightarrow> seek_from \<Rightarrow> int" where
  "seek_target c (SeekStart off) = uint off"
| "seek_target c (SeekEnd off) = uint (sc_len c) + sint off"
| "seek_target c (SeekCurrent off) = uint (sc_pos c) + sint off"

definition source_cursor_seek ::
    "source_cursor \<Rightarrow> seek_from \<Rightarrow> (io_error + u64) \<times> source_cursor" where
  "source_cursor_seek c p =
     (let target = seek_target c p
      in if target < 0 then (Inl (IoInvalidInput ''seek before start of window''), c)
         else
           let pos = word_of_int (min target (2 ^ 64 - 1))
           in (Inr pos, c\<lparr>sc_pos := pos\<rparr>))"

section \<open>Readers\<close>

record 'r reader_ops =
  rd_read :: "'r \<Rightarrow> bytes \<Rightarrow> (io_error + nat) \<times> bytes \<times> 'r"
  rd_seek :: "'r \<Rightarrow> seek_from \<Rightarrow> (io_error + u64) \<times> 'r"

definition cursor_ops :: "source_cursor reader_ops" where
  "cursor_ops = \<lparr>rd_read = source_cursor_read, rd_seek = source_cursor_seek\<rparr>"

section \<open>SeekPoolSource\<close>

record 'r mutex =
  mx_locked :: bool
  mx_poisoned :: bool
  mx_reader :: 'r

record 'r seek_pool =
  sp_pool :: "'r mutex list"
  sp_len :: u64

definition seek_pool_new :: "'r list \<Rightarrow> u64 \<Rightarrow> 'r seek_pool" where
  "seek_pool_new readers len =
     \<lparr>sp_pool = map (\<lambda>r. \<lparr>mx_locked = False, mx_poisoned = False, mx_reader = r\<rparr>) readers,
      sp_len = len\<rparr>"

definition seek_pool_single :: "'r \<Rightarrow> u64 \<Rightarrow> 'r seek_pool" where
  "seek_pool_single r len = seek_pool_new [r] len"

text \<open>\<open>try_lock\<close> succeeds on a mutex that is neither held nor poisoned.\<close>

definition try_lock :: "'r mutex \<Rightarrow> bool" where
  "try_lock m \<longleftrightarrow> \<not> mx_locked m \<and> \<not> mx_poisoned m"

text \<open>\<open>checkout\<close>: the first mutex that \<open>try_lock\<close> takes, else the first one of the pool, on which
  the caller blocks until it is free (a poisoned lock is recovered); none for an empty pool.\<close>

fun first_free :: "nat \<Rightarrow> 'r mutex list \<Rightarrow> nat option" where
  "first_free i [] = None"
| "first_free i (m # ms) = (if try_lock m then Some i else first_free (Suc i) ms)"

definition checkout :: "'r mutex list \<Rightarrow> nat option" where
  "checkout pool =
     (case first_free 0 pool of
        Some i \<Rightarrow> Some i
      | None \<Rightarrow> (if pool = [] then None else Some 0))"

text \<open>The loop that fills the window: \<open>dst\<close> is the whole window, \<open>filled\<close> (the code's \<open>total\<close>) how much of
  it is filled, \<open>want\<close> its length, which no read changes. Each round but the last reads at least one byte.\<close>

function fill_window ::
    "'r reader_ops \<Rightarrow> nat \<Rightarrow> 'r \<Rightarrow> bytes \<Rightarrow> nat \<Rightarrow> nat vfs_result \<times> bytes \<times> 'r" where
  "fill_window ops want r dst filled =
     (if filled < want then
        case rd_read ops r (drop filled dst) of
          (Inl e, slot, r') \<Rightarrow> (Inl (io_err ''read'' e), take filled dst @ slot, r')
        | (Inr n, slot, r') \<Rightarrow>
            if n = 0 then (Inr filled, take filled dst @ slot, r')
            else fill_window ops want r' (take filled dst @ slot) (filled + n)
      else (Inr filled, dst, r))"
  by pat_completeness auto
termination
  by (relation "measure (\<lambda>(ops, want, r, dst, filled). want - filled)") auto

declare fill_window.simps [simp del]

text \<open>One \<open>read_at\<close> with the cursor it checked out: seek, clamp to what remains, fill.\<close>

definition pool_reader_read ::
    "'r reader_ops \<Rightarrow> u64 \<Rightarrow> 'r \<Rightarrow> u64 \<Rightarrow> bytes \<Rightarrow> nat vfs_result \<times> bytes \<times> 'r" where
  "pool_reader_read ops len r offset buf =
     (case rd_seek ops r (SeekStart offset) of
        (Inl e, r') \<Rightarrow> (Inl (io_err ''seek'' e), buf, r')
      | (Inr _, r') \<Rightarrow>
          let remaining = len - offset;
              want = min (length buf) (unat remaining)
          in case slice_get 0 want buf of
               None \<Rightarrow> (Inr 0, buf, r')
             | Some dst \<Rightarrow>
                 (case fill_window ops want r' dst 0 of
                    (res, dst', r'') \<Rightarrow> (res, dst' @ drop want buf, r'')))"

definition seek_pool_read_at ::
    "'r reader_ops \<Rightarrow> 'r seek_pool \<Rightarrow> u64 \<Rightarrow> bytes \<Rightarrow> nat vfs_result \<times> bytes \<times> 'r seek_pool" where
  "seek_pool_read_at ops p offset buf =
     (if sp_len p \<le> offset then (Inr 0, buf, p)
      else case checkout (sp_pool p) of
             None \<Rightarrow> (Inr 0, buf, p)
           | Some i \<Rightarrow>
               (case pool_reader_read ops (sp_len p) (mx_reader (sp_pool p ! i)) offset buf of
                  (res, buf', r') \<Rightarrow>
                    (res, buf', p\<lparr>sp_pool := (sp_pool p)[i := (sp_pool p ! i)\<lparr>mx_reader := r'\<rparr>]\<rparr>)))"

section \<open>The contract of a reader\<close>

text \<open>The least that a reader promises, and what it gives the pool.\<close>

locale fitting_reader =
  fixes ops :: "'r reader_ops" and valid :: "'r \<Rightarrow> bool"
  assumes seek_valid: "valid r \<Longrightarrow> rd_seek ops r (SeekStart off) = (sk, r') \<Longrightarrow> valid r'"
    and read_valid: "valid r \<Longrightarrow> rd_read ops r buf = (res, buf', r') \<Longrightarrow> valid r' \<and> read_fits buf res buf'"
begin

lemma fill_window_fits:
  assumes "fill_window ops want r dst filled = (res, dst', r')"
    and "valid r" and "length dst = want" and "filled \<le> want"
  shows "valid r' \<and> read_fits dst res dst'"
  using assms
proof (induction "want - filled" arbitrary: r dst filled rule: less_induct)
  case less
  show ?case
  proof (cases "filled < want")
    case False
    with less.prems show ?thesis by (auto simp: fill_window.simps [of ops want r dst])
  next
    case True
    obtain q slot r1 where rd: "rd_read ops r (drop filled dst) = (q, slot, r1)"
      by (metis prod_cases3)
    note fits = read_valid [OF less.prems(2) rd]
    show ?thesis
    proof (cases "q \<in> range Inl \<or> q = Inr 0")
      case last: True
      with True less.prems rd fits show ?thesis
        by (auto simp: fill_window.simps [of ops want r dst])
    next
      case False
      then obtain m where q: "q = Inr m" and m: "m \<noteq> 0" by (cases q) auto
      with True less.prems(1) rd
      have step: "fill_window ops want r1 (take filled dst @ slot) (filled + m) = (res, dst', r')"
        by (simp add: fill_window.simps [of ops want r dst])
      have "valid r' \<and> read_fits (take filled dst @ slot) res dst'"
        using True q m fits less.prems by (intro less.hyps [OF _ step]) auto
      then show ?thesis using fits q True less.prems(3) by (cases res) auto
    qed
  qed
qed

lemma pool_reader_read_fits:
  assumes "pool_reader_read ops len r off buf = (res, buf', r')" and "valid r" and "off < len"
  shows "valid r' \<and> read_fits buf res buf'"
proof -
  have rem: "unat (len - off) = unat len - unat off"
    using assms(3) by (simp add: unat_sub order_less_imp_le)
  obtain q r1 where sk: "rd_seek ops r (SeekStart off) = (q, r1)"
    by (cases "rd_seek ops r (SeekStart off)") auto
  with seek_valid [OF assms(2) sk] have r1: "valid r1" by simp
  show ?thesis
  proof (cases q)
    case (Inl e)
    with assms sk r1 show ?thesis by (auto simp: pool_reader_read_def)
  next
    case (Inr p)
    define want where "want = min (length buf) (unat len - unat off)"
    from assms(1) sk Inr obtain dst where
      fw: "fill_window ops want r1 (take want buf) 0 = (res, dst, r')"
      and b: "buf' = dst @ drop want buf"
      by (auto simp: pool_reader_read_def rem Let_def slices want_def split: prod.splits)
    from fill_window_fits [OF fw r1] show ?thesis
      by (cases res) (auto simp: b want_def)
  qed
qed

end

section \<open>The pool serves the bytes of its readers\<close>

lemma first_free_Some:
  "first_free k ms = Some i \<Longrightarrow> k \<le> i \<and> i < k + length ms \<and> try_lock (ms ! (i - k))"
proof (induction ms arbitrary: k)
  case (Cons m ms)
  show ?case
  proof (cases "try_lock m")
    case False
    with Cons.prems have "first_free (Suc k) ms = Some i" by simp
    from Cons.IH [OF this] show ?thesis by (auto simp: nth_Cons')
  qed (use Cons.prems in auto)
qed simp

lemma first_free_None: "first_free k ms = None \<longleftrightarrow> (\<forall>m \<in> set ms. \<not> try_lock m)"
  by (induction ms arbitrary: k) auto

lemma checkout_Some: "checkout ms = Some i \<Longrightarrow> i < length ms"
  by (auto simp: checkout_def dest!: first_free_Some split: option.splits if_splits)

lemma checkout_None_iff: "checkout ms = None \<longleftrightarrow> ms = []"
  by (auto simp: checkout_def split: option.splits)

definition pool_inv :: "('r \<Rightarrow> bool) \<Rightarrow> 'r seek_pool \<Rightarrow> bool" where
  "pool_inv valid p \<longleftrightarrow> (\<forall>m \<in> set (sp_pool p). valid (mx_reader m))"

lemma pool_inv_update:
  "pool_inv valid p \<Longrightarrow> valid r \<Longrightarrow> pool_inv valid (p\<lparr>sp_pool := (sp_pool p)[i := m\<lparr>mx_reader := r\<rparr>]\<rparr>)"
  by (auto simp: pool_inv_def dest!: set_update_subset_insert [THEN subsetD])

lemma pool_inv_nth: "pool_inv valid p \<Longrightarrow> i < length (sp_pool p) \<Longrightarrow> valid (mx_reader (sp_pool p ! i))"
  by (simp add: pool_inv_def)

context fitting_reader
begin

lemma seek_pool_read_fits:
  assumes "seek_pool_read_at ops p off buf = (res, buf', p')" and "pool_inv valid p"
  shows "pool_inv valid p' \<and> read_fits buf res buf'"
proof (cases "sp_len p \<le> off \<or> checkout (sp_pool p) = None")
  case True
  with assms show ?thesis by (auto simp: seek_pool_read_at_def split: if_splits)
next
  case False
  then obtain i where co: "checkout (sp_pool p) = Some i" and noff: "\<not> sp_len p \<le> off"
    by auto
  then have off: "off < sp_len p" by simp
  define m where "m = sp_pool p ! i"
  obtain r' where rd: "pool_reader_read ops (sp_len p) (mx_reader m) off buf = (res, buf', r')"
    and p': "p' = p\<lparr>sp_pool := (sp_pool p)[i := m\<lparr>mx_reader := r'\<rparr>]\<rparr>"
    using assms(1) co noff by (auto simp: seek_pool_read_at_def m_def split: prod.splits)
  have "valid (mx_reader m)"
    using pool_inv_nth [OF assms(2) checkout_Some [OF co]] by (simp add: m_def)
  from pool_reader_read_fits [OF rd this off] show ?thesis
    using assms(2) by (auto simp: p' intro: pool_inv_update)
qed

end

section \<open>The bytes that a reader reads\<close>

locale seekable_reader = fitting_reader ops valid
  for ops :: "'r reader_ops" and valid :: "'r \<Rightarrow> bool" +
  fixes content :: bytes and pos :: "'r \<Rightarrow> nat"
  assumes seek_pos: "valid r \<Longrightarrow> rd_seek ops r (SeekStart off) = (Inr p, r') \<Longrightarrow> pos r' = unat off"
    and read_pos: "valid r \<Longrightarrow> rd_read ops r buf = (Inr n, buf', r') \<Longrightarrow>
      pos r' = pos r + n \<and> take n buf' = take n (drop (pos r) content) \<and> n \<le> length content - pos r
      \<and> (n = 0 \<longrightarrow> buf = [] \<or> length content \<le> pos r)"
begin

lemma seek_start:
  "valid r \<Longrightarrow> rd_seek ops r (SeekStart off) = (res, r') \<Longrightarrow>
     valid r' \<and> (\<forall>p. res = Inr p \<longrightarrow> pos r' = unat off)"
  using seek_valid seek_pos by blast

lemma read_ok:
  "valid r \<Longrightarrow> rd_read ops r buf = (Inr n, buf', r') \<Longrightarrow>
     valid r' \<and> pos r' = pos r + n \<and> length buf' = length buf \<and> n \<le> length buf
     \<and> take n buf' = take n (drop (pos r) content) \<and> n \<le> length content - pos r
     \<and> (n = 0 \<longrightarrow> buf = [] \<or> length content \<le> pos r)"
  using read_valid [of r buf "Inr n" buf' r'] read_pos [of r buf n buf' r'] by simp

text \<open>The bytes read so far, extended by one read.\<close>

lemma filled_extends:
  assumes "take k dst = take k (drop start content)" and "k \<le> length dst"
    and "take n slot = take n (drop (start + k) content)"
  shows "take (k + n) (take k dst @ slot) = take (k + n) (drop start content)"
proof -
  have "take (k + n) (take k dst @ slot) = take k dst @ take n slot"
    using assms(2) by simp
  also have "\<dots> = take (k + n) (drop start content)"
    unfolding assms(1,3) by (simp add: take_add add.commute)
  finally show ?thesis .
qed

lemma fill_window_ok:
  assumes "fill_window ops want r dst filled = (Inr n, dst', r')"
    and "valid r" and "length dst = want" and "filled \<le> want"
    and "pos r = start + filled"
    and "take filled dst = take filled (drop start content)"
    and "filled \<le> length content - start"
  shows "valid r' \<and> length dst' = want \<and> n = read_count content start want
    \<and> take n dst' = take n (drop start content)"
  using assms
proof (induction "want - filled" arbitrary: r dst filled rule: less_induct)
  case less
  show ?case
  proof (cases "filled < want")
    case False
    with less.prems show ?thesis
      by (auto simp: fill_window.simps [of ops want r dst] read_count_def)
  next
    case True
    obtain res slot r1 where rd: "rd_read ops r (drop filled dst) = (res, slot, r1)"
      by (metis prod_cases3)
    with True less.prems(1) obtain m where res: "res = Inr m"
      by (cases res) (auto simp: fill_window.simps [of ops want r dst])
    note ok = read_ok [OF less.prems(2) rd [unfolded res]]
    have len: "length (take filled dst @ slot) = want"
      using ok less.prems(3,4) by simp
    have ext: "take (filled + m) (take filled dst @ slot) = take (filled + m) (drop start content)"
      using less.prems ok by (intro filled_extends) auto
    show ?thesis
    proof (cases "m = 0")
      case m0: True
      with True less.prems(1) rd res have "n = filled" "dst' = take filled dst @ slot" "r' = r1"
        by (auto simp: fill_window.simps [of ops want r dst])
      with m0 ok len ext less.prems True show ?thesis
        by (auto simp: read_count_def)
    next
      case False
      with True less.prems(1) rd res
      have step: "fill_window ops want r1 (take filled dst @ slot) (filled + m) = (Inr n, dst', r')"
        by (simp add: fill_window.simps [of ops want r dst])
      show ?thesis
        using False True ok less.prems ext len
        by (intro less.hyps [OF _ step]) auto
    qed
  qed
qed

lemma pool_reader_read_ok:
  assumes "pool_reader_read ops len r off buf = (Inr n, buf', r')" and "valid r" and "off < len"
  shows "valid r' \<and> length buf' = length buf
    \<and> n = read_count (take (unat len) content) (unat off) (length buf)
    \<and> take n buf' = take (length buf) (drop (unat off) (take (unat len) content))"
proof -
  define want where "want = min (length buf) (unat len - unat off)"
  have rem: "unat (len - off) = unat len - unat off"
    using assms(3) by (simp add: unat_sub order_less_imp_le)
  obtain res r1 where sk: "rd_seek ops r (SeekStart off) = (res, r1)"
    by (cases "rd_seek ops r (SeekStart off)") auto
  with assms(1) obtain p where "res = Inr p"
    by (cases res) (auto simp: pool_reader_read_def)
  with seek_start [OF assms(2) sk] have r1: "valid r1" "pos r1 = unat off" by auto
  have le: "want \<le> length buf" by (simp add: want_def)
  from assms(1) sk \<open>res = Inr p\<close> le
  obtain dst where fw: "fill_window ops want r1 (take want buf) 0 = (Inr n, dst, r')"
    and b: "buf' = dst @ drop want buf"
    by (auto simp: pool_reader_read_def rem Let_def slices want_def split: prod.splits)
  have len0: "length (take want buf) = want" using le by simp
  from fill_window_ok [OF fw r1(1) len0, of "unat off"] r1(2)
  have f: "valid r'" "length dst = want" "n = read_count content (unat off) want"
    "take n dst = take n (drop (unat off) content)"
    by (simp_all only: le0 add_0_right take_0 simp_thms) blast+
  have n: "n = read_count (take (unat len) content) (unat off) (length buf)"
    by (auto simp: f(3) read_count_def want_def)
  have "take n buf' = take n (drop (unat off) content)"
    using f by (simp add: b read_count_def)
  also have "\<dots> = take (length buf) (drop (unat off) (take (unat len) content))"
    by (auto simp: n read_count_def drop_take min_def)
  finally show ?thesis using f le n by (simp add: b)
qed

lemma seek_pool_read_ok:
  assumes "seek_pool_read_at ops p off buf = (Inr n, buf', p')" and "pool_inv valid p"
    and "sp_pool p \<noteq> []"
  shows "n = read_count (take (unat (sp_len p)) content) (unat off) (length buf)
    \<and> take n buf' = take (length buf) (drop (unat off) (take (unat (sp_len p)) content))"
proof (cases "sp_len p \<le> off")
  case True
  with assms(1) show ?thesis
    by (auto simp: seek_pool_read_at_def read_count_def word_le_nat_alt)
next
  case False
  then have off: "off < sp_len p" by simp
  from assms(3) obtain i where co: "checkout (sp_pool p) = Some i"
    using checkout_None_iff [of "sp_pool p"] by (cases "checkout (sp_pool p)") auto
  obtain r' where
    rd: "pool_reader_read ops (sp_len p) (mx_reader (sp_pool p ! i)) off buf = (Inr n, buf', r')"
    using assms(1) co False by (auto simp: seek_pool_read_at_def split: prod.splits)
  from pool_reader_read_ok [OF rd pool_inv_nth [OF assms(2) checkout_Some [OF co]] off]
  show ?thesis by blast
qed

end

section \<open>SourceCursor is such a reader\<close>

lemma source_cursor_new_simps [simp]:
  "sc_src (source_cursor_new src base len) = src"
  "sc_base (source_cursor_new src base len) = base"
  "sc_pos (source_cursor_new src base len) = 0"
  "sc_len (source_cursor_new src base len) = sr_len (sub_range_new src base len)"
  by (simp_all add: source_cursor_new_def sub_range_new_def Let_def)

text \<open>A cursor read is a \<open>SubRange\<close> read at the cursor, which then advances.\<close>

lemma source_cursor_read_eq:
  "source_cursor_read c buf =
     (case sub_range_read_at \<lparr>sr_parent = sc_src c, sr_base = sc_base c, sr_len = sc_len c\<rparr>
             (sc_pos c) buf of
        (Inl e, buf') \<Rightarrow> (Inl (IoOther e), buf', c)
      | (Inr n, buf') \<Rightarrow>
          (Inr n, buf', if sc_len c \<le> sc_pos c then c
             else c\<lparr>sc_pos := saturating_add (sc_pos c) (word_of_nat n)\<rparr>))"
  by (auto simp: source_cursor_read_def sub_range_read_at_def Let_def slices
      split: prod.splits sum.splits)

lemma seek_start_pos:
  "source_cursor_seek c (SeekStart off) = (Inr off, c\<lparr>sc_pos := off\<rparr>)"
proof -
  have "uint off < 2 ^ 64" using uint_bounded [of off] by simp
  then have "min (uint off) (2 ^ 64 - 1) = uint off" by simp
  then show ?thesis by (simp add: source_cursor_seek_def Let_def)
qed

definition cursor_inv :: "image_source \<Rightarrow> u64 \<Rightarrow> u64 \<Rightarrow> source_cursor \<Rightarrow> bool" where
  "cursor_inv src base len c \<longleftrightarrow>
     sc_src c = src \<and> sc_base c = base \<and> sc_len c = sr_len (sub_range_new src base len)"

lemma cursor_inv_new: "cursor_inv src base len (source_cursor_new src base len)"
  by (simp add: cursor_inv_def)

lemma cursor_inv_sub_range:
  "cursor_inv src base len c \<Longrightarrow>
     \<lparr>sr_parent = sc_src c, sr_base = sc_base c, sr_len = sc_len c\<rparr> = sub_range_new src base len"
  by (simp add: cursor_inv_def sub_range_new_def Let_def)

locale cursor_source = byte_source src content for src content +
  fixes base wlen :: u64
begin

lemma cursor_read_view:
  assumes "cursor_inv src base wlen c" and "source_cursor_read c buf = (res, buf', c')"
  obtains q where "sub_range_read_at (sub_range_new src base wlen) (sc_pos c) buf = (q, buf')"
    and "res = res_map_err IoOther q"
    and "c' = (case q of Inl e \<Rightarrow> c
                | Inr n \<Rightarrow> if sc_len c \<le> sc_pos c then c
                           else c\<lparr>sc_pos := saturating_add (sc_pos c) (word_of_nat n)\<rparr>)"
  using assms cursor_inv_sub_range [OF assms(1)]
  by (auto simp: source_cursor_read_eq split: prod.splits sum.splits)

end

sublocale cursor_source \<subseteq> win: window_source src content base wlen
  by unfold_locales

context cursor_source
begin

lemma cursor_read_pos:
  assumes "cursor_inv src base wlen c" and "source_cursor_read c buf = (Inr n, buf', c')"
  shows "cursor_inv src base wlen c' \<and> unat (sc_pos c') = unat (sc_pos c) + n
    \<and> read_allowed (window_of content base wlen) (unat (sc_pos c)) (length buf) n
    \<and> buf' = read_part (window_of content base wlen) (unat (sc_pos c)) n buf"
proof -
  obtain q where q: "sub_range_read_at (sub_range_new src base wlen) (sc_pos c) buf = (q, buf')"
    and res: "Inr n = res_map_err IoOther q"
    and c': "c' = (case q of Inl e \<Rightarrow> c
                | Inr n \<Rightarrow> if sc_len c \<le> sc_pos c then c
                           else c\<lparr>sc_pos := saturating_add (sc_pos c) (word_of_nat n)\<rparr>)"
    by (rule cursor_read_view [OF assms])
  from res have qn: "q = Inr n" by (cases q) auto
  from win.window.read_chunk [of "sc_pos c" buf n buf'] q qn
  have n: "read_allowed (window_of content base wlen) (unat (sc_pos c)) (length buf) n"
    and b: "buf' = read_part (window_of content base wlen) (unat (sc_pos c)) n buf" by simp_all
  from read_allowed_le [OF n] have le: "n \<le> length (window_of content base wlen) - unat (sc_pos c)"
    by (simp add: read_count_def)
  have len: "unat (sc_len c) = length (window_of content base wlen)"
    using assms(1) by (simp add: cursor_inv_def content_len min.commute)
  have "unat (sc_pos c') = unat (sc_pos c) + n"
  proof (cases "sc_len c \<le> sc_pos c")
    case True
    then have "n = 0" using len le by (simp add: word_le_nat_alt)
    with True c' qn show ?thesis by simp
  next
    case False
    then have "unat (sc_pos c) + n \<le> unat (sc_len c)"
      using len le by (simp only: word_le_nat_alt)
    moreover have "unat (sc_len c) < 2 ^ 64" using unsigned_less [of "sc_len c"] by simp
    ultimately show ?thesis
      using False c' qn by (simp add: unat_saturating_add unat_of_nat)
  qed
  moreover have "cursor_inv src base wlen c'"
    using assms(1) c' qn by (simp add: cursor_inv_def)
  ultimately show ?thesis using n b by blast
qed

lemma cursor_read_err:
  assumes "cursor_inv src base wlen c" and "source_cursor_read c buf = (Inl e, buf', c')"
  shows "c' = c \<and> length buf' = length buf"
proof -
  obtain q where q: "sub_range_read_at (sub_range_new src base wlen) (sc_pos c) buf = (q, buf')"
    and res: "Inl e = res_map_err IoOther q"
    and c': "c' = (case q of Inl e \<Rightarrow> c
                | Inr n \<Rightarrow> if sc_len c \<le> sc_pos c then c
                           else c\<lparr>sc_pos := saturating_add (sc_pos c) (word_of_nat n)\<rparr>)"
    by (rule cursor_read_view [OF assms])
  from res obtain e' where "q = Inl e'" by (cases q) auto
  with c' q win.window.read_keeps_length [of "sc_pos c" buf q buf'] show ?thesis by simp
qed

end

sublocale fitting_source \<subseteq> cursors: fitting_reader cursor_ops "\<lambda>c. sc_src c = src"
proof
  fix c off sk c'
  assume "sc_src c = src" and "rd_seek cursor_ops c (SeekStart off) = (sk, c')"
  then show "sc_src c' = src" by (auto simp: cursor_ops_def seek_start_pos)
next
  fix c buf res buf' c'
  assume c: "sc_src c = src" and "rd_read cursor_ops c buf = (res, buf', c')"
  then have "source_cursor_read c buf = (res, buf', c')" by (simp add: cursor_ops_def)
  then obtain q where q: "sub_range_read_at
      \<lparr>sr_parent = sc_src c, sr_base = sc_base c, sr_len = sc_len c\<rparr> (sc_pos c) buf = (q, buf')"
    and res: "res = res_map_err IoOther q" "sc_src c' = src"
    using c by (auto simp: source_cursor_read_eq split: prod.splits sum.splits)
  from window_fits [OF _ q] c have "read_fits buf q buf'" by simp
  with res show "sc_src c' = src \<and> read_fits buf res buf'" by (cases q) auto
qed

context fitting_source
begin

lemma cursor_read_fits:
  "sc_src c = src \<Longrightarrow> source_cursor_read c buf = (res, buf', c') \<Longrightarrow>
     sc_src c' = src \<and> read_fits buf res buf'"
  using cursors.read_valid [of c buf res buf' c'] by (simp add: cursor_ops_def)

lemmas cursor_pool_fits = cursors.seek_pool_read_fits

end

sublocale cursor_source \<subseteq> cursor: seekable_reader cursor_ops "cursor_inv src base wlen"
  "window_of content base wlen" "\<lambda>c. unat (sc_pos c)"
proof unfold_locales
  fix c off sk c'
  assume "cursor_inv src base wlen c" and "rd_seek cursor_ops c (SeekStart off) = (sk, c')"
  then show "cursor_inv src base wlen c'"
    by (auto simp: cursor_ops_def seek_start_pos cursor_inv_def)
next
  fix c off p c'
  assume "rd_seek cursor_ops c (SeekStart off) = (Inr p, c')"
  then show "unat (sc_pos c') = unat off" by (auto simp: cursor_ops_def seek_start_pos)
next
  fix c buf res buf' c'
  assume inv: "cursor_inv src base wlen c" and rd: "rd_read cursor_ops c buf = (res, buf', c')"
  then have "source_cursor_read c buf = (res, buf', c')" by (simp add: cursor_ops_def)
  then have "sc_base c' = sc_base c \<and> sc_len c' = sc_len c"
    by (auto simp: source_cursor_read_eq split: prod.splits sum.splits)
  with inv fits.cursors.read_valid [OF _ rd]
  show "cursor_inv src base wlen c' \<and> read_fits buf res buf'" by (auto simp: cursor_inv_def)
next
  fix c buf n buf' c'
  assume inv: "cursor_inv src base wlen c" and "rd_read cursor_ops c buf = (Inr n, buf', c')"
  then have rd: "source_cursor_read c buf = (Inr n, buf', c')" by (simp add: cursor_ops_def)
  note r = cursor_read_pos [OF inv rd]
  then have le: "n \<le> read_count (window_of content base wlen) (unat (sc_pos c)) (length buf)"
    by (simp add: read_allowed_le)
  have "take n buf' = take n (drop (unat (sc_pos c)) (window_of content base wlen))"
    using r read_part_prefix [OF le] by simp
  moreover have "n = 0 \<longrightarrow> buf = [] \<or> length (window_of content base wlen) \<le> unat (sc_pos c)"
    using r read_allowed_0 [of "window_of content base wlen" "unat (sc_pos c)" buf] by blast
  moreover have "n \<le> length (window_of content base wlen) - unat (sc_pos c)"
    using le by (simp add: read_count_def)
  ultimately show "unat (sc_pos c') = unat (sc_pos c) + n
      \<and> take n buf' = take n (drop (unat (sc_pos c)) (window_of content base wlen))
      \<and> n \<le> length (window_of content base wlen) - unat (sc_pos c)
      \<and> (n = 0 \<longrightarrow> buf = [] \<or> length (window_of content base wlen) \<le> unat (sc_pos c))"
    using r by blast
qed

interpretation raw_cursor: cursor_source
  "file_source_source cfg (opened_file f)" "os_bytes f" base wlen
  for cfg :: platform and f :: os_file and base wlen :: u64
  by unfold_locales

section \<open>A sequence of reads\<close>

text \<open>What a legacy caller collects that reads into one buffer after the other, keeping of each the
  bytes that the read counted.\<close>

fun read_chunks :: "source_cursor \<Rightarrow> bytes list \<Rightarrow> (io_error + bytes) \<times> source_cursor" where
  "read_chunks c [] = (Inr [], c)"
| "read_chunks c (buf # bufs) =
     (case source_cursor_read c buf of
        (Inl e, buf', c') \<Rightarrow> (Inl e, c')
      | (Inr n, buf', c') \<Rightarrow>
          (case read_chunks c' bufs of
             (Inl e, c'') \<Rightarrow> (Inl e, c'')
           | (Inr bs, c'') \<Rightarrow> (Inr (take n buf' @ bs), c'')))"

context cursor_source
begin

lemma read_chunks_step:
  assumes "cursor_inv src base wlen c" and "read_chunks c (buf # bufs) = (Inr bs, c')"
  obtains n buf' c1 rest where "source_cursor_read c buf = (Inr n, buf', c1)"
    and "read_chunks c1 bufs = (Inr rest, c')" and "bs = take n buf' @ rest" and "length (take n buf') = n"
    and "take n buf' = take n (drop (unat (sc_pos c)) (window_of content base wlen))"
    and "cursor_inv src base wlen c1" and "unat (sc_pos c1) = unat (sc_pos c) + n"
    and "read_allowed (window_of content base wlen) (unat (sc_pos c)) (length buf) n"
proof -
  from assms(2) obtain n buf' c1 rest where rd: "source_cursor_read c buf = (Inr n, buf', c1)"
    and more: "read_chunks c1 bufs = (Inr rest, c')" and bs: "bs = take n buf' @ rest"
    by (auto split: prod.splits sum.splits)
  note r = cursor_read_pos [OF assms(1) rd]
  then have le: "n \<le> read_count (window_of content base wlen) (unat (sc_pos c)) (length buf)"
    by (simp add: read_allowed_le)
  have buf': "buf' = read_part (window_of content base wlen) (unat (sc_pos c)) n buf" using r by blast
  have "take n buf' = take n (drop (unat (sc_pos c)) (window_of content base wlen))"
    unfolding buf' by (rule read_part_prefix [OF le])
  moreover have "length (take n buf') = n"
    using le unfolding buf' length_take length_read_part [OF le] by (simp add: read_count_def)
  ultimately show ?thesis using that rd more bs r by blast
qed

text \<open>What reads one after the other collect are bytes of the window, in order and without a gap. They
  reach the end of the window, or count at least one byte for each buffer that is not empty.\<close>

lemma read_chunks_ok:
  "cursor_inv src base wlen c \<Longrightarrow> read_chunks c bufs = (Inr bs, c') \<Longrightarrow>
     cursor_inv src base wlen c' \<and> unat (sc_pos c') = unat (sc_pos c) + length bs
     \<and> bs = take (length bs) (drop (unat (sc_pos c)) (window_of content base wlen))
     \<and> length bs \<le> sum_list (map length bufs)
     \<and> (length (window_of content base wlen) \<le> unat (sc_pos c')
        \<or> length (filter (\<lambda>b. b \<noteq> []) bufs) \<le> length bs)"
proof (induction bufs arbitrary: c bs)
  case (Cons buf bufs)
  let ?w = "window_of content base wlen"
  from Cons.prems obtain n buf' c1 rest where more: "read_chunks c1 bufs = (Inr rest, c')"
    and bs: "bs = take n buf' @ rest" and n: "length (take n buf') = n"
    and chunk: "take n buf' = take n (drop (unat (sc_pos c)) ?w)"
    and inv: "cursor_inv src base wlen c1" and pos: "unat (sc_pos c1) = unat (sc_pos c) + n"
    and allowed: "read_allowed ?w (unat (sc_pos c)) (length buf) n"
    by (rule read_chunks_step)
  note rest = Cons.IH [OF inv more]
  have len: "length bs = n + length rest" using n by (simp add: bs)
  have "bs = take n (drop (unat (sc_pos c)) ?w) @ take (length rest) (drop (unat (sc_pos c1)) ?w)"
    using rest by (simp add: bs chunk)
  also have "\<dots> = take (length bs) (drop (unat (sc_pos c)) ?w)"
    by (simp add: len pos take_add add.commute)
  finally have bytes: "bs = take (length bs) (drop (unat (sc_pos c)) ?w)" .
  have "n \<le> length buf" using read_allowed_le [OF allowed] by (simp add: read_count_def)
  then have "length bs \<le> sum_list (map length (buf # bufs))" using rest len by simp
  moreover have "length ?w \<le> unat (sc_pos c') \<or> length (filter (\<lambda>b. b \<noteq> []) (buf # bufs)) \<le> length bs"
  proof (cases "length ?w \<le> unat (sc_pos c')")
    case False
    then have "length (filter (\<lambda>b. b \<noteq> []) bufs) \<le> length rest"
      and "\<not> length ?w \<le> unat (sc_pos c)" using rest pos by linarith+
    with allowed read_allowed_0 [of ?w "unat (sc_pos c)" buf] len show ?thesis
      by (cases "n = 0") auto
  qed simp
  moreover have "unat (sc_pos c') = unat (sc_pos c) + length bs" using rest pos len by linarith
  ultimately show ?case using rest bytes by blast
qed simp

lemma read_chunks_err:
  "cursor_inv src base wlen c \<Longrightarrow> read_chunks c bufs = (Inl e, c') \<Longrightarrow>
     cursor_inv src base wlen c' \<and> unat (sc_pos c) \<le> unat (sc_pos c')"
proof (induction bufs arbitrary: c)
  case (Cons buf bufs)
  obtain q buf' c1 where rd: "source_cursor_read c buf = (q, buf', c1)"
    by (cases "source_cursor_read c buf")
  show ?case
  proof (cases q)
    case (Inl e')
    with Cons.prems cursor_read_err [of c buf e' buf' c1] rd show ?thesis by auto
  next
    case (Inr n)
    with rd have rd: "source_cursor_read c buf = (Inr n, buf', c1)" by simp
    with Cons.prems(2) have "read_chunks c1 bufs = (Inl e, c')"
      by (auto split: prod.splits sum.splits)
    with Cons.IH [of c1] cursor_read_pos [OF Cons.prems(1) rd] show ?thesis by force
  qed
qed simp

end

locale filling_cursor = filling_source src content lim for src content lim +
  fixes base wlen :: u64

sublocale filling_cursor \<subseteq> cursor_source src content base wlen
  by unfold_locales

sublocale filling_cursor \<subseteq> filling_window src content lim base wlen
  by unfold_locales

context filling_cursor
begin

lemma cursor_read_full:
  assumes "cursor_inv src base wlen c" and "source_cursor_read c buf = (Inr n, buf', c')"
    and "length buf \<le> lim"
  shows "n = read_count (window_of content base wlen) (unat (sc_pos c)) (length buf)"
proof -
  obtain q where q: "sub_range_read_at (sub_range_new src base wlen) (sc_pos c) buf = (q, buf')"
    and res: "Inr n = res_map_err IoOther q"
    by (rule cursor_read_view [OF assms(1,2)])
  from res have "q = Inr n" by (cases q) auto
  with full.read_ok [of "sc_pos c" buf n buf'] q assms(3) show ?thesis by simp
qed

text \<open>Buffers that the source always fills collect all that fits them.\<close>

lemma read_chunks_full:
  "cursor_inv src base wlen c \<Longrightarrow> read_chunks c bufs = (Inr bs, c') \<Longrightarrow> \<forall>b \<in> set bufs. length b \<le> lim \<Longrightarrow>
     bs = take (sum_list (map length bufs)) (drop (unat (sc_pos c)) (window_of content base wlen))"
proof (induction bufs arbitrary: c bs)
  case (Cons buf bufs)
  let ?w = "window_of content base wlen"
  from Cons.prems(1,2) obtain n buf' c1 rest where rd: "source_cursor_read c buf = (Inr n, buf', c1)"
    and more: "read_chunks c1 bufs = (Inr rest, c')"
    and bs: "bs = take n buf' @ rest" and chunk: "take n buf' = take n (drop (unat (sc_pos c)) ?w)"
    and inv: "cursor_inv src base wlen c1" and pos: "unat (sc_pos c1) = unat (sc_pos c) + n"
    by (rule read_chunks_step)
  have n: "n = read_count ?w (unat (sc_pos c)) (length buf)"
    using cursor_read_full [OF Cons.prems(1) rd] Cons.prems(3) by simp
  have "take n (drop (unat (sc_pos c)) ?w) = take (length buf) (drop (unat (sc_pos c)) ?w)"
    by (auto simp: n read_count_def min_def simp del: length_window_of)
  moreover have "drop (unat (sc_pos c1)) ?w = drop (length buf) (drop (unat (sc_pos c)) ?w)"
    by (auto simp: pos n read_count_def min_def add.commute simp del: length_window_of)
  moreover have "rest = take (sum_list (map length bufs)) (drop (unat (sc_pos c1)) ?w)"
    using Cons.IH [OF inv more] Cons.prems(3) by simp
  ultimately show ?case unfolding bs chunk by (simp add: take_add)
qed simp

end

interpretation raw_streams: filling_cursor
  "file_source_source cfg (opened_file f)" "os_bytes f" "of_whole f" base wlen
  for cfg :: platform and f :: os_file and base wlen :: u64
  by unfold_locales

end
