(* ===== verification/Adapter_Properties.thy ===== *)
theory Adapter_Properties
  imports Seek_Adapters
begin

text \<open>
  The properties of the byte adapters: windows of a source, nested windows, files, cursors and
  pools of cursors, and exact reads, each stated over files and windows of files whose reads may be
  short. \<open>probe_file\<close> is a file of four bytes that never fails, of which the system reads at most two
  bytes whole and larger requests one byte at a time; at it hypotheses are shown to hold.
\<close>

section \<open>An instance\<close>

definition probe_file :: os_file where
  "probe_file = \<lparr>of_len = 4, of_byte = (\<lambda>i. 65 + ucast i), of_metadata_fault = None,
     of_read_fault = (\<lambda>_. None), of_whole = 2, of_short = (\<lambda>_ _. 1)\<rparr>"

lemma probe_file_simps [simp]:
  "of_len probe_file = 4" "of_metadata_fault probe_file = None" "of_read_fault probe_file off = None"
  "of_whole probe_file = 2" "of_short probe_file off want = 1"
  by (simp_all add: probe_file_def)

definition probe_source :: image_source where
  "probe_source = file_source_source Unix (opened_file probe_file)"

lemma probe_source_len [simp]: "src_len probe_source = 4"
  by (simp add: probe_source_def file_source_source_def)

lemma os_read_probe: "os_read_at probe_file buf off
    = (Inr (os_transfer probe_file off (length buf)),
       read_part (os_bytes probe_file) (unat off) (os_transfer probe_file off (length buf)) buf)"
  by (simp add: os_read_at_def Let_def)

lemma probe_read: "\<exists>n b. src_read_at probe_source off buf = (Inr n, b)"
  by (simp add: probe_source_def file_source_source_def file_source_read_at_def os_read_probe)

lemma probe_window_read:
  "\<exists>n b. src_read_at (sub_range_source (sub_range_new probe_source base len)) off buf = (Inr n, b)"
proof (cases "sr_len (sub_range_new probe_source base len) \<le> off")
  case False
  then show ?thesis
    using probe_read [of "saturating_add base off"
        "take (min (length buf) (unat (sr_len (sub_range_new probe_source base len)) - unat off)) buf"]
    by (auto simp: sub_range_read_at_eq Let_def simp del: sub_range_new_simps(3))
qed (simp add: sub_range_read_at_eq)

section \<open>Windows of windows\<close>

text \<open>The one window that a window of a window is.\<close>

definition sub_range_compose :: "sub_range \<Rightarrow> u64 \<Rightarrow> u64 \<Rightarrow> sub_range" where
  "sub_range_compose s base len =
     sub_range_new (sr_parent s) (saturating_add (sr_base s) base)
       (min len (saturating_sub (sr_len s) base))"

lemma nested_len:
  "unat (sr_len (sub_range_new (sub_range_source (sub_range_new p b n)) b' n'))
     = unat (sr_len (sub_range_compose (sub_range_new p b n) b' n'))"
  using unat_u64_less [of "src_len p"]
  by (simp add: sub_range_compose_def unat_min unat_saturating_add unat_saturating_sub)

lemma saturating_add_assoc:
  "saturating_add (a :: u64) (saturating_add b c) = saturating_add (saturating_add a b) c"
proof -
  have "unat (saturating_add a (saturating_add b c)) = unat (saturating_add (saturating_add a b) c)"
    by (simp add: unat_saturating_add)
  then show ?thesis by (simp only: word_unat_eq_iff)
qed

lemma nested_read:
  "sub_range_read_at (sub_range_new (sub_range_source (sub_range_new p b n)) b' n') off buf
     = sub_range_read_at (sub_range_compose (sub_range_new p b n) b' n') off buf"
proof -
  define outer inner direct where "outer = sub_range_new (sub_range_source (sub_range_new p b n)) b' n'"
    and "inner = sub_range_new p b n" and "direct = sub_range_compose (sub_range_new p b n) b' n'"
  have len: "sr_len outer = sr_len direct"
    using nested_len [of p b n b' n'] by (simp add: outer_def direct_def word_unat_eq_iff)
  show ?thesis
  proof (cases "sr_len direct \<le> off")
    case True
    then show ?thesis
      using len by (simp add: sub_range_read_at_eq outer_def [symmetric] direct_def [symmetric])
  next
    case False
    define want where "want = min (length buf) (unat (sr_len direct) - unat off)"
    have sum: "unat b' + unat off < unat (sr_len inner)"
      using False len by (auto simp: outer_def inner_def word_le_nat_alt simp flip: len)
    then have add: "unat (saturating_add b' off) = unat b' + unat off"
      using unat_u64_less [of "sr_len inner"] by (simp add: unat_saturating_add)
    then have inner_lt: "\<not> sr_len inner \<le> saturating_add b' off"
      using sum by (simp add: word_le_nat_alt)
    have "unat (sr_len direct) \<le> unat (sr_len inner) - unat b'"
      using nested_len [of p b n b' n'] by (simp add: direct_def inner_def)
    then have want: "min want (unat (sr_len inner) - (unat b' + unat off)) = want"
      by (simp add: want_def)
    have "sub_range_read_at inner (saturating_add b' off) (take want buf) =
        src_read_at p (saturating_add b (saturating_add b' off)) (take want buf)"
      using inner_lt want by (simp add: sub_range_read_at_eq add inner_def Let_def want_def
          split: prod.splits)
    then show ?thesis
      using False len
      by (simp add: sub_range_read_at_eq [of outer] sub_range_read_at_eq [of direct] outer_def [symmetric]
          direct_def [symmetric] want_def [symmetric] Let_def saturating_add_assoc)
        (simp add: outer_def direct_def sub_range_compose_def inner_def saturating_add_assoc)
  qed
qed

section \<open>Properties\<close>

text \<open>C10: a \<open>SubRange\<close> presents exactly its window. On a file, whatever the requested window, its
  length is clamped to what the file holds past the base, and a read that succeeds transfers the
  bytes of the window from the offset on, leaves the rest of the buffer alone, and counts them. It
  transfers no more than there is up to the end of the window or of the buffer; nothing only at or past
  the end of the window or for an empty buffer, however short the system's reads are; and all there is
  for a buffer of a size that the operating system never reads short.\<close>

theorem sub_range_presents_window:
  assumes "src_read_at (sub_range_source
      (sub_range_new (file_source_source cfg (opened_file f)) base len)) off buf = (Inr n, buf')"
  shows "buf' = take n (drop (unat off) (window_of (os_bytes f) base len)) @ drop n buf
    \<and> n \<le> read_count (window_of (os_bytes f) base len) (unat off) (length buf)
    \<and> (n = 0 \<longrightarrow> buf = [] \<or> length (window_of (os_bytes f) base len) \<le> unat off)
    \<and> (length buf \<le> of_whole f \<longrightarrow>
         n = read_count (window_of (os_bytes f) base len) (unat off) (length buf))
    \<and> length (window_of (os_bytes f) base len)
        = unat (src_len (sub_range_source (sub_range_new (file_source_source cfg (opened_file f)) base len)))
    \<and> length (window_of (os_bytes f) base len) = min (unat len) (unat (of_len f) - unat base)"
proof (intro conjI impI)
  note part = raw_window.window.read_chunk [OF assms]
  then show "buf' = take n (drop (unat off) (window_of (os_bytes f) base len)) @ drop n buf"
    by (simp add: read_part_def)
  show "n \<le> read_count (window_of (os_bytes f) base len) (unat off) (length buf)"
    using part by (simp add: read_allowed_le)
  show "buf = [] \<or> length (window_of (os_bytes f) base len) \<le> unat off" if "n = 0"
    using part read_allowed_0 unfolding that by blast
  show "n = read_count (window_of (os_bytes f) base len) (unat off) (length buf)" if "length buf \<le> of_whole f"
    using raw_filling.full.read_ok [OF assms that] by blast
  show "length (window_of (os_bytes f) base len)
      = unat (src_len (sub_range_source (sub_range_new (file_source_source cfg (opened_file f)) base len)))"
    by (rule raw_window.window.content_len)
qed (simp add: min.commute)

theorem sub_range_presents_window_witness:
  "\<exists>n buf'. buf' = read_into (window_of (os_bytes probe_file) 1 2) (unat (1 :: u64)) [0, 0]
     \<and> n = read_count (window_of (os_bytes probe_file) 1 2) (unat (1 :: u64)) (length [0, 0 :: u8])"
proof -
  obtain n b where "src_read_at (sub_range_source (sub_range_new
      (file_source_source Unix (opened_file probe_file)) 1 2)) 1 [0, 0] = (Inr n, b)"
    using probe_window_read [of 1 2 1 "[0, 0]"] by (auto simp: probe_source_def)
  note r = sub_range_presents_window [OF this]
  then have n: "n = read_count (window_of (os_bytes probe_file) 1 2) (unat (1 :: u64)) (length [0, 0 :: u8])"
    by simp
  from r have "b = read_into (window_of (os_bytes probe_file) 1 2) (unat (1 :: u64)) [0, 0]"
    unfolding read_into_def n [symmetric] by blast
  with n show ?thesis by blast
qed

text \<open>C11: a window of a window is one window. Whatever the parent, the bases, the lengths and the
  overflows, a \<open>SubRange\<close> of a \<open>SubRange\<close> has the length of, and answers every read exactly as, the
  single \<open>SubRange\<close> of the parent at the saturated sum of the bases with the smaller length: errors,
  counts and buffer included.\<close>

theorem nested_sub_range:
  "sub_range_read_at (sub_range_new (sub_range_source (sub_range_new p b n)) b' n') off buf
     = sub_range_read_at (sub_range_compose (sub_range_new p b n) b' n') off buf
   \<and> sr_len (sub_range_new (sub_range_source (sub_range_new p b n)) b' n')
     = sr_len (sub_range_compose (sub_range_new p b n) b' n')"
  using nested_read nested_len [of p b n b' n'] by (simp add: word_unat_eq_iff)

text \<open>C24: a \<open>SubRange\<close> never looks outside its window. Two parents of the same length that answer
  alike every read inside the window give windows that answer alike every read: nothing before the
  base, nothing past the base plus the length, has any influence.\<close>

theorem sub_range_stays_in_window:
  assumes "src_len p = src_len q"
    and "\<And>o' dst. unat base \<le> unat o' \<Longrightarrow> unat o' + length dst \<le> unat base + unat len \<Longrightarrow>
      src_read_at p o' dst = src_read_at q o' dst"
  shows "sub_range_read_at (sub_range_new p base len) off buf
    = sub_range_read_at (sub_range_new q base len) off buf"
proof -
  have len: "sr_len (sub_range_new p base len) = sr_len (sub_range_new q base len)"
    using assms(1) by (simp add: sub_range_new_def Let_def)
  show ?thesis
  proof (cases "sr_len (sub_range_new q base len) \<le> off")
    case True
    then show ?thesis using len by (simp add: sub_range_read_at_eq)
  next
    case False
    let ?want = "min (length buf) (unat (sr_len (sub_range_new q base len)) - unat off)"
    have lt: "off < sr_len (sub_range_new q base len)" using False by simp
    have "unat off + ?want \<le> unat len"
      using lt by (auto simp: word_less_nat_alt)
    then have "src_read_at p (saturating_add base off) (take ?want buf)
        = src_read_at q (saturating_add base off) (take ?want buf)"
      using window_abs_offset [OF lt] by (intro assms(2)) auto
    then show ?thesis
      using len False by (simp add: sub_range_read_at_eq del: sub_range_new_simps(3))
  qed
qed

theorem sub_range_stays_in_window_witness:
  "sub_range_read_at (sub_range_new probe_source 1 2) 0 [0]
     = sub_range_read_at (sub_range_new (probe_source\<lparr>src_read_at := \<lambda>off dst.
         if unat off = 0 then (Inr 0, dst) else src_read_at probe_source off dst\<rparr>) 1 2) 0 [0]"
  by (rule sub_range_stays_in_window) auto

text \<open>A \<open>FileSource\<close> presents its file. Opening fails exactly when the operating system cannot
  report the length, loudly; otherwise the length is the file's, and every read that succeeds, on
  Unix and on Windows, is a read of the file's bytes at the offset; a read at or past the end is an
  empty success that does not touch the operating system.\<close>

lemma file_source_presents_file:
  "(case os_metadata_len f of
      Inl e \<Rightarrow> file_source_from_file f = Inl (Io ''metadata'' e)
    | Inr len \<Rightarrow> (\<exists>s. file_source_from_file f = Inr s \<and> src_len (file_source_source cfg s) = len
        \<and> (\<forall>off buf n buf'. src_read_at (file_source_source cfg s) off buf = (Inr n, buf') \<longrightarrow>
             read_allowed (os_bytes f) (unat off) (length buf) n
             \<and> buf' = read_part (os_bytes f) (unat off) n buf)
        \<and> (\<forall>off buf. len \<le> off \<longrightarrow> src_read_at (file_source_source cfg s) off buf = (Inr 0, buf))))"
proof (cases "of_metadata_fault f")
  case None
  then have m: "os_metadata_len f = Inr (of_len f)" and s: "file_source_from_file f = Inr (opened_file f)"
    by (simp_all add: os_metadata_len_def file_source_from_file_ok)
  have "src_len (file_source_source cfg (opened_file f)) = of_len f"
    "of_len f \<le> off \<Longrightarrow> src_read_at (file_source_source cfg (opened_file f)) off buf = (Inr 0, buf)"
    for off buf
    by (simp_all add: file_source_source_def file_source_read_at_def)
  with m s raw_window.read_chunk [of cfg f] show ?thesis by auto
next
  case (Some e)
  then show ?thesis by (simp add: os_metadata_len_def file_source_from_file_def io_err_def)
qed

text \<open>C27: exact reads. When the underlying read succeeds, \<open>read_exact_at\<close> on a window of a file
  succeeds exactly when that one read filled the buffer, and then with the window's bytes, in a range
  that lies inside the window; a success never hides missing bytes. Otherwise it fails with an
  \<open>OutOfRange\<close> error that names the offset, the length asked for and the source's length. A buffer of
  a size that the operating system never reads short is filled exactly when its range lies inside the
  window. A larger one may be read short by the system, and since nothing reads the rest, a request
  inside the window then fails as out of range.\<close>

theorem read_exact_all_or_error:
  assumes "src_read_at src off buf = (Inr n, buf0)"
    and "src = sub_range_source (sub_range_new (file_source_source cfg (opened_file f)) base len)"
  shows "read_exact_at src off buf =
      (if n = length buf
       then (Inr (), take (length buf) (drop (unat off) (window_of (os_bytes f) base len)))
       else (Inl (OutOfRange ''read_exact_at'' off (word_of_nat (length buf)) (src_len src)), buf0))
    \<and> (n = length buf \<longrightarrow> buf = [] \<or> unat off + length buf \<le> length (window_of (os_bytes f) base len))
    \<and> (length buf \<le> of_whole f \<longrightarrow>
         (n = length buf \<longleftrightarrow> buf = [] \<or> unat off + length buf \<le> length (window_of (os_bytes f) base len)))"
proof (intro conjI impI)
  note rd = assms(1) [unfolded assms(2)]
  show "read_exact_at src off buf =
      (if n = length buf
       then (Inr (), take (length buf) (drop (unat off) (window_of (os_bytes f) base len)))
       else (Inl (OutOfRange ''read_exact_at'' off (word_of_nat (length buf)) (src_len src)), buf0))"
    unfolding assms(2) by (rule raw_window.window.read_exact_eq [OF rd])
  show "buf = [] \<or> unat off + length buf \<le> length (window_of (os_bytes f) base len)" if "n = length buf"
    using rd unfolding that by (rule raw_window.window.read_all_bytes(2))
  show "n = length buf \<longleftrightarrow> buf = [] \<or> unat off + length buf \<le> length (window_of (os_bytes f) base len)"
    if "length buf \<le> of_whole f"
    by (rule raw_filling.full.read_all_iff [OF rd that])
qed

text \<open>On the file of four bytes: two bytes past the end of a window are refused; and so are three bytes
  inside the file, which the system reads short.\<close>

theorem read_exact_all_or_error_witness:
  "(\<exists>buf0. read_exact_at (sub_range_source (sub_range_new probe_source 1 2)) 1 [0, 0] =
      (Inl (OutOfRange ''read_exact_at'' 1 2 2), buf0))
   \<and> (\<exists>buf0. read_exact_at (sub_range_source (sub_range_new probe_source 0 4)) 0 [0, 0, 0] =
      (Inl (OutOfRange ''read_exact_at'' 0 3 4), buf0))"
proof
  obtain n buf0 where rd: "src_read_at (sub_range_source (sub_range_new probe_source 1 2)) 1 [0, 0] = (Inr n, buf0)"
    using probe_window_read by blast
  from read_exact_all_or_error [OF rd, of Unix probe_file 1 2]
  show "\<exists>buf0. read_exact_at (sub_range_source (sub_range_new probe_source 1 2)) 1 [0, 0] =
      (Inl (OutOfRange ''read_exact_at'' 1 2 2), buf0)"
    by (auto simp: probe_source_def sub_range_new_def Let_def file_source_source_def saturating_sub_def)
next
  obtain n buf0 where rd: "src_read_at (sub_range_source (sub_range_new probe_source 0 4)) 0 [0, 0, 0] = (Inr n, buf0)"
    using probe_window_read by blast
  have len: "sr_len (sub_range_new probe_source 0 4) = 4" and base: "saturating_add 0 0 = (0 :: u64)"
    by (simp_all add: sub_range_new_def Let_def saturating_sub_def saturating_add_def)
  have "fst (src_read_at probe_source 0 [0, 0, 0]) = Inr 1"
    by (simp add: probe_source_def file_source_source_def file_source_read_at_def os_read_probe
        os_transfer_def read_count_def Let_def)
  with rd have "n = 1"
    by (auto simp: sub_range_read_at_eq Let_def len base simp del: sub_range_new_simps(3) split: prod.splits)
  with read_exact_all_or_error [OF rd, of Unix probe_file 0 4]
  show "\<exists>buf0. read_exact_at (sub_range_source (sub_range_new probe_source 0 4)) 0 [0, 0, 0] =
      (Inl (OutOfRange ''read_exact_at'' 0 3 4), buf0)"
    by (auto simp: probe_source_def sub_range_new_def Let_def file_source_source_def saturating_sub_def)
qed

text \<open>A seek, and one read after it.\<close>

lemma cursor_seek_then_read:
  assumes "cursor_inv (file_source_source cfg (opened_file f)) base len c"
  shows "(case source_cursor_seek c p of
      (Inl e, c1) \<Rightarrow> seek_target c p < 0 \<and> c1 = c
    | (Inr pos, c1) \<Rightarrow> uint pos = min (seek_target c p) (2 ^ 64 - 1) \<and> sc_pos c1 = pos
        \<and> (case source_cursor_read c1 buf of
             (Inl e, buf', c2) \<Rightarrow> c2 = c1
           | (Inr n, buf', c2) \<Rightarrow>
               read_allowed (window_of (os_bytes f) base len) (unat pos) (length buf) n
               \<and> buf' = read_part (window_of (os_bytes f) base len) (unat pos) n buf
               \<and> unat (sc_pos c2) = unat pos + n
               \<and> cursor_inv (file_source_source cfg (opened_file f)) base len c2))"
proof (cases "seek_target c p < 0")
  case True
  then show ?thesis by (simp add: source_cursor_seek_def)
next
  case False
  define pos :: u64 where "pos = word_of_int (min (seek_target c p) (2 ^ 64 - 1))"
  define c1 where "c1 = c\<lparr>sc_pos := pos\<rparr>"
  have u: "uint pos = min (seek_target c p) (2 ^ 64 - 1)"
    using False by (simp add: pos_def uint_word_of_int)
  have sk: "source_cursor_seek c p = (Inr pos, c1)"
    using False by (simp add: source_cursor_seek_def pos_def c1_def Let_def)
  have inv: "cursor_inv (file_source_source cfg (opened_file f)) base len c1"
    using assms by (simp add: cursor_inv_def c1_def)
  obtain res buf' c2 where rd: "source_cursor_read c1 buf = (res, buf', c2)"
    by (cases "source_cursor_read c1 buf")
  show ?thesis
  proof (cases res)
    case (Inl e)
    with raw_cursor.cursor_read_err [OF inv, of buf e buf' c2] rd u show ?thesis
      by (simp add: sk c1_def)
  next
    case (Inr n)
    with raw_cursor.cursor_read_pos [OF inv, of buf n buf' c2] rd u show ?thesis
      by (simp add: sk c1_def)
  qed
qed

text \<open>C21: a \<open>SourceCursor\<close> is a faithful \<open>Read + Seek\<close> of its window. For any cursor over a window of
  a file, wherever earlier reads and seeks left it: a seek fails only when its target lies before
  the window, and then moves nothing; otherwise it lands on the target (capped at the largest
  \<open>u64\<close>), past the end too. Reads that succeed after it, into buffers of any sizes one after the
  other, give together the window's bytes from there, none lost, repeated or out of order, and the
  cursor stands behind them: short reads only make the next one go on where the last one stopped. They
  end where the window does, or have given at least a byte for every buffer that is not empty; when
  every buffer is of a size that the operating system never reads short, they fill the buffers up to the
  end of the window. A read that fails never moves the cursor back.\<close>

theorem cursor_seek_then_stream:
  assumes "cursor_inv (file_source_source cfg (opened_file f)) base len c"
  shows "(case source_cursor_seek c p of
      (Inl e, c1) \<Rightarrow> seek_target c p < 0 \<and> c1 = c
    | (Inr pos, c1) \<Rightarrow> uint pos = min (seek_target c p) (2 ^ 64 - 1)
        \<and> (case read_chunks c1 bufs of
             (Inl e, c2) \<Rightarrow> pos \<le> sc_pos c2
                \<and> cursor_inv (file_source_source cfg (opened_file f)) base len c2
           | (Inr bs, c2) \<Rightarrow>
               bs = take (length bs) (drop (unat pos) (window_of (os_bytes f) base len))
               \<and> length bs \<le> sum_list (map length bufs)
               \<and> (length (window_of (os_bytes f) base len) \<le> unat (sc_pos c2)
                  \<or> length (filter (\<lambda>b. b \<noteq> []) bufs) \<le> length bs)
               \<and> ((\<forall>b \<in> set bufs. length b \<le> of_whole f) \<longrightarrow>
                    bs = take (sum_list (map length bufs)) (drop (unat pos) (window_of (os_bytes f) base len)))
               \<and> unat (sc_pos c2) = unat pos + length bs
               \<and> cursor_inv (file_source_source cfg (opened_file f)) base len c2))"
proof -
  obtain q c1 where sk: "source_cursor_seek c p = (q, c1)" by (cases "source_cursor_seek c p")
  obtain res c2 where rd: "read_chunks c1 bufs = (res, c2)" by (cases "read_chunks c1 bufs")
  note seek = cursor_seek_then_read [OF assms, of p "[]", unfolded sk prod.case]
  show ?thesis
  proof (cases q)
    case (Inr pos)
    then have inv: "cursor_inv (file_source_source cfg (opened_file f)) base len c1" and pos: "sc_pos c1 = pos"
      using assms sk seek by (auto simp: source_cursor_seek_def cursor_inv_def Let_def split: if_splits)
    from Inr seek have "uint pos = min (seek_target c p) (2 ^ 64 - 1)" by simp
    then show ?thesis
    proof (cases res)
      case (Inl e)
      from raw_cursor.read_chunks_err [OF inv rd [unfolded this]] Inl show ?thesis
        using \<open>uint pos = _\<close> by (simp add: sk \<open>q = Inr pos\<close> rd pos word_le_nat_alt)
    next
      case (Inr bs)
      note rd = rd [unfolded this]
      show ?thesis
        unfolding sk \<open>q = Inr pos\<close> prod.case sum.case rd
        using \<open>uint pos = _\<close> raw_cursor.read_chunks_ok [OF inv rd, unfolded pos]
          raw_streams.read_chunks_full [OF inv rd, unfolded pos] by blast
    qed
  qed (use seek in \<open>simp add: sk\<close>)
qed

lemma probe_chunks: "sc_src c = probe_source \<Longrightarrow> \<exists>bs c'. read_chunks c bufs = (Inr bs, c')"
proof (induction bufs arbitrary: c)
  case (Cons buf bufs)
  have "\<exists>n b c1. source_cursor_read c buf = (Inr n, b, c1) \<and> sc_src c1 = probe_source"
    using Cons.prems probe_read [of "saturating_add (sc_base c) (sc_pos c)"
        "take (min (length buf) (unat (sc_len c - sc_pos c))) buf"]
    by (auto simp: source_cursor_read_def Let_def slices)
  then obtain n b c1 where rd: "source_cursor_read c buf = (Inr n, b, c1)" "sc_src c1 = probe_source" by blast
  from Cons.IH [OF rd(2)] rd show ?case by auto
qed simp

theorem cursor_seek_then_stream_witness:
  "\<exists>c1 c2. read_chunks c1 [[0], [0, 0]] = (Inr (window_of (os_bytes probe_file) 1 2), c2)"
proof -
  let ?c = "source_cursor_new probe_source 1 2"
  have inv: "cursor_inv (file_source_source Unix (opened_file probe_file)) 1 2 ?c"
    unfolding probe_source_def by (rule cursor_inv_new)
  have sk: "source_cursor_seek ?c (SeekStart 0) = (Inr 0, ?c\<lparr>sc_pos := 0\<rparr>)"
    by (simp add: source_cursor_seek_def)
  have "sc_src (?c\<lparr>sc_pos := 0\<rparr>) = probe_source" by (simp add: source_cursor_new_def Let_def)
  from probe_chunks [OF this] obtain bs c2
    where rd: "read_chunks (?c\<lparr>sc_pos := 0\<rparr>) [[0], [0, 0]] = (Inr bs, c2)" by blast
  from cursor_seek_then_stream [OF inv, of "SeekStart 0" "[[0], [0, 0]]"]
  have "bs = window_of (os_bytes probe_file) 1 2"
    unfolding sk prod.case sum.case rd by (simp add: window_of_def flip: numeral_2_eq_2)
  with rd show ?thesis by blast
qed

text \<open>C20: the two adapters are inverse. A pool of cursors over a window of a file serves positioned
  reads of that window: after any history of reads that kept the pool's readers on the window, a
  read that succeeds gives the bytes a \<open>SubRange\<close> would give, as many as are left, whatever
  positions the readers were left at and however short their reads are; and it keeps the pool so.\<close>

theorem pool_of_cursors_reads_window:
  assumes "pool_inv (cursor_inv (file_source_source cfg (opened_file f)) base wlen) p"
    and "sp_pool p \<noteq> []" and "seek_pool_read_at cursor_ops p off buf = (res, buf', p')"
  shows "pool_inv (cursor_inv (file_source_source cfg (opened_file f)) base wlen) p'
    \<and> length buf' = length buf
    \<and> (\<forall>n. res = Inr n \<longrightarrow>
        n = read_count (take (unat (sp_len p)) (window_of (os_bytes f) base wlen)) (unat off) (length buf)
        \<and> take n buf' = take (length buf)
            (drop (unat off) (take (unat (sp_len p)) (window_of (os_bytes f) base wlen))))"
proof -
  note keeps = raw_cursor.cursor.seek_pool_read_fits [OF assms(3,1), THEN conjunct2, THEN read_fits_length]
    raw_cursor.cursor.seek_pool_read_fits [OF assms(3,1)]
  have "n = read_count (take (unat (sp_len p)) (window_of (os_bytes f) base wlen)) (unat off) (length buf)
      \<and> take n buf' = take (length buf)
          (drop (unat off) (take (unat (sp_len p)) (window_of (os_bytes f) base wlen)))"
    if "res = Inr n" for n
    by (rule raw_cursor.cursor.seek_pool_read_ok [OF assms(3) [unfolded that] assms(1,2)])
  with keeps show ?thesis by blast
qed

definition probe_pool :: "source_cursor seek_pool" where
  "probe_pool = seek_pool_single (source_cursor_new (file_source_source Unix (opened_file probe_file)) 1 2) 2"

lemma probe_pool_inv: "pool_inv (cursor_inv (file_source_source Unix (opened_file probe_file)) 1 2) probe_pool"
  by (simp add: pool_inv_def probe_pool_def seek_pool_single_def seek_pool_new_def cursor_inv_new)

theorem pool_of_cursors_reads_window_witness:
  "pool_inv (cursor_inv (file_source_source Unix (opened_file probe_file)) 1 2)
     (snd (snd (seek_pool_read_at cursor_ops probe_pool 1 [0, 0])))"
proof -
  obtain res buf' p' where r: "seek_pool_read_at cursor_ops probe_pool 1 [0, 0] = (res, buf', p')"
    by (cases "seek_pool_read_at cursor_ops probe_pool 1 [0, 0]")
  have "sp_pool probe_pool \<noteq> []" by (simp add: probe_pool_def seek_pool_single_def seek_pool_new_def)
  from pool_of_cursors_reads_window [OF probe_pool_inv this r] r show ?thesis by simp
qed

definition source_fits :: "image_source \<Rightarrow> bool" where
  "source_fits s \<longleftrightarrow> (\<forall>off buf. case src_read_at s off buf of (res, buf') \<Rightarrow> read_fits buf res buf')"

lemma source_fits_locale: "source_fits s \<longleftrightarrow> fitting_source s"
  by (auto simp: source_fits_def fitting_source_def split: prod.splits)

text \<open>C12: every adapter keeps the shape of a read. Whatever source lies below, failing or lying about
  its bytes, as long as its reads keep the length of the buffer and count no more than it holds: a
  \<open>SubRange\<close> of it, a \<open>SourceCursor\<close> over it, and a pool of such cursors do so too, on every call, at
  every offset, whatever the result; and a cursor stays on its source.\<close>

theorem adapters_keep_read_shape:
  assumes "source_fits p" and "sc_src c = p" and "pool_inv (\<lambda>c. sc_src c = p) pool"
  shows "source_fits (sub_range_source (sub_range_new p base len))
    \<and> (case source_cursor_read c buf of (res, buf', c') \<Rightarrow> sc_src c' = p \<and> read_fits buf res buf')
    \<and> (case seek_pool_read_at cursor_ops pool off buf of (res, buf', pool') \<Rightarrow>
         pool_inv (\<lambda>c. sc_src c = p) pool' \<and> read_fits buf res buf')"
proof (intro conjI)
  from assms(1) have p: "fitting_source p" by (simp add: source_fits_locale)
  show "source_fits (sub_range_source (sub_range_new p base len))"
    using fitting_source.window_fits [OF p, of "sub_range_new p base len"]
    by (auto simp: source_fits_def)
  show "case source_cursor_read c buf of (res, buf', c') \<Rightarrow> sc_src c' = p \<and> read_fits buf res buf'"
    using fitting_source.cursor_read_fits [OF p assms(2)] by blast
  show "case seek_pool_read_at cursor_ops pool off buf of (res, buf', pool') \<Rightarrow>
      pool_inv (\<lambda>c. sc_src c = p) pool' \<and> read_fits buf res buf'"
    using fitting_source.cursor_pool_fits [OF p _ assms(3)] by blast
qed

text \<open>A source that always fails, and scribbles over the buffer it was lent.\<close>

definition failing_source :: image_source where
  "failing_source = default_source 9 (\<lambda>off buf. (Inl (Unsupported ''demo'' ''read''), map (\<lambda>_. 1) buf))"

theorem adapters_keep_read_shape_witness:
  "source_fits (sub_range_source (sub_range_new failing_source 2 3))
   \<and> snd (snd (source_cursor_read (source_cursor_new failing_source 2 3) [0])) = source_cursor_new failing_source 2 3"
proof -
  have "source_fits failing_source" by (simp add: source_fits_def failing_source_def)
  moreover have "pool_inv (\<lambda>c. sc_src c = failing_source)
      (seek_pool_single (source_cursor_new failing_source 2 3) 3)"
    by (simp add: pool_inv_def seek_pool_single_def seek_pool_new_def)
  ultimately have "source_fits (sub_range_source (sub_range_new failing_source 2 3))"
    using adapters_keep_read_shape [of failing_source "source_cursor_new failing_source 2 3"] by simp
  moreover have "snd (snd (source_cursor_read (source_cursor_new failing_source 2 3) [0]))
      = source_cursor_new failing_source 2 3"
    by (simp add: source_cursor_read_eq failing_source_def split: prod.splits sum.splits)
      (auto simp: sub_range_read_at_eq split: if_splits prod.splits)
  ultimately show ?thesis by simp
qed

text \<open>The pool is not always non-empty. A pool built from no readers reports its length and yet
  answers every read, inside it too, with an empty success, which a caller takes for the end.\<close>

lemma empty_pool_reads_nothing:
  "seek_pool_read_at ops (seek_pool_new [] len) off buf = (Inr 0, buf, seek_pool_new [] len)
   \<and> sp_len (seek_pool_new [] len) = len"
  by (simp add: seek_pool_read_at_def seek_pool_new_def checkout_def)

end
