(* ===== verification/Pool_Threads.thy ===== *)
theory Pool_Threads
  imports Seek_Adapters
begin

text \<open>
  Concurrent reads of one \<open>SeekPoolSource\<close> (\<open>checkout\<close> and \<open>read_at\<close> in
  \<open>crates/core/src/adapters.rs\<close>), as a step relation over the interleavings of \<open>n\<close> threads, each of
  which makes one \<open>read_at\<close>. A thread tries the mutexes in order, blocks on the first one when all
  were busy, reads with the reader it locked, and releases it. \<open>try_lock\<close> also fails on a poisoned
  mutex, a blocking \<open>lock\<close> recovers it. (The failed \<open>try_lock\<close> of a free poisoned mutex holds its lock
  for the moment until its error is dropped; it is one \<open>busy\<close> step here that holds nothing. Another
  thread that finds the mutex locked in that moment would do what it does on a poisoned one, pass it
  by, or block until the moment is over.) A read may panic inside the reader: the thread unwinds and ends,
  its guard poisons and releases the mutex, and the reader is left in a state that \<open>unwind\<close> relates to
  the one before.

  The invariant is mutual exclusion: a mutex is locked exactly when one thread holds it. From it
  follow the results of every thread, the absence of deadlock, and a bound on the steps.
\<close>

section \<open>Threads\<close>

datatype phase =
    Idle
  | Scanning nat
  | Waiting
  | Reading nat
  | Holding nat "nat vfs_result" bytes
  | Done "nat vfs_result" bytes
  | Panicked

record 'r pool_state =
  ps_pool :: "'r mutex list"
  ps_phase :: "nat \<Rightarrow> phase"

definition set_phase :: "nat \<Rightarrow> phase \<Rightarrow> 'r pool_state \<Rightarrow> 'r pool_state" where
  "set_phase t ph s = s\<lparr>ps_phase := (ps_phase s)(t := ph)\<rparr>"

definition set_mutex :: "nat \<Rightarrow> 'r mutex \<Rightarrow> 'r pool_state \<Rightarrow> 'r pool_state" where
  "set_mutex i m s = s\<lparr>ps_pool := (ps_pool s)[i := m]\<rparr>"

inductive pool_step ::
    "'r reader_ops \<Rightarrow> ('r \<Rightarrow> 'r \<Rightarrow> bool) \<Rightarrow> u64 \<Rightarrow> nat \<Rightarrow> (nat \<Rightarrow> u64 \<times> bytes) \<Rightarrow> 'r pool_state \<Rightarrow> 'r pool_state \<Rightarrow> bool"
  for ops :: "'r reader_ops" and unwind :: "'r \<Rightarrow> 'r \<Rightarrow> bool" and len :: u64 and n :: nat and req :: "nat \<Rightarrow> u64 \<times> bytes" where
  at_end:
    "t < n \<Longrightarrow> ps_phase s t = Idle \<Longrightarrow> len \<le> fst (req t) \<Longrightarrow>
     pool_step ops unwind len n req s (set_phase t (Done (Inr 0) (snd (req t))) s)"
| start:
    "t < n \<Longrightarrow> ps_phase s t = Idle \<Longrightarrow> fst (req t) < len \<Longrightarrow>
     pool_step ops unwind len n req s (set_phase t (Scanning 0) s)"
| take_lock:
    "t < n \<Longrightarrow> ps_phase s t = Scanning i \<Longrightarrow> i < length (ps_pool s) \<Longrightarrow> try_lock (ps_pool s ! i) \<Longrightarrow>
     pool_step ops unwind len n req s
       (set_phase t (Reading i) (set_mutex i ((ps_pool s ! i)\<lparr>mx_locked := True\<rparr>) s))"
| busy:
    "t < n \<Longrightarrow> ps_phase s t = Scanning i \<Longrightarrow> i < length (ps_pool s) \<Longrightarrow> \<not> try_lock (ps_pool s ! i) \<Longrightarrow>
     pool_step ops unwind len n req s (set_phase t (Scanning (Suc i)) s)"
| all_busy:
    "t < n \<Longrightarrow> ps_phase s t = Scanning i \<Longrightarrow> length (ps_pool s) \<le> i \<Longrightarrow> ps_pool s \<noteq> [] \<Longrightarrow>
     pool_step ops unwind len n req s (set_phase t Waiting s)"
| no_reader:
    "t < n \<Longrightarrow> ps_phase s t = Scanning i \<Longrightarrow> ps_pool s = [] \<Longrightarrow>
     pool_step ops unwind len n req s (set_phase t (Done (Inr 0) (snd (req t))) s)"
| wait_lock:
    "t < n \<Longrightarrow> ps_phase s t = Waiting \<Longrightarrow> ps_pool s \<noteq> [] \<Longrightarrow> \<not> mx_locked (ps_pool s ! 0) \<Longrightarrow>
     pool_step ops unwind len n req s
       (set_phase t (Reading 0) (set_mutex 0 ((ps_pool s ! 0)\<lparr>mx_locked := True\<rparr>) s))"
| do_read:
    "t < n \<Longrightarrow> ps_phase s t = Reading i \<Longrightarrow>
     pool_reader_read ops len (mx_reader (ps_pool s ! i)) (fst (req t)) (snd (req t)) = (res, buf', r') \<Longrightarrow>
     pool_step ops unwind len n req s
       (set_phase t (Holding i res buf') (set_mutex i ((ps_pool s ! i)\<lparr>mx_reader := r'\<rparr>) s))"
| release:
    "t < n \<Longrightarrow> ps_phase s t = Holding i res buf' \<Longrightarrow>
     pool_step ops unwind len n req s
       (set_phase t (Done res buf') (set_mutex i ((ps_pool s ! i)\<lparr>mx_locked := False\<rparr>) s))"
| panic:
    "t < n \<Longrightarrow> ps_phase s t = Reading i \<Longrightarrow> unwind (mx_reader (ps_pool s ! i)) r' \<Longrightarrow>
     pool_step ops unwind len n req s
       (set_phase t Panicked
         (set_mutex i \<lparr>mx_locked = False, mx_poisoned = True, mx_reader = r'\<rparr> s))"

inductive_cases pool_stepE: "pool_step ops unwind len n req s s'"

text \<open>A \<open>SourceCursor\<close> that unwinds has kept its window: its methods assign nothing but the position.\<close>

definition cursor_unwind :: "source_cursor \<Rightarrow> source_cursor \<Rightarrow> bool" where
  "cursor_unwind c c' \<longleftrightarrow> (\<exists>pos. c' = c\<lparr>sc_pos := pos\<rparr>)"

lemma cursor_unwind_inv: "cursor_inv src base len c \<Longrightarrow> cursor_unwind c c' \<Longrightarrow> cursor_inv src base len c'"
  by (auto simp: cursor_unwind_def cursor_inv_def)

lemma set_simps [simp]:
  "ps_phase (set_phase t ph s) = (ps_phase s)(t := ph)" "ps_pool (set_phase t ph s) = ps_pool s"
  "ps_pool (set_mutex i m s) = (ps_pool s)[i := m]" "ps_phase (set_mutex i m s) = ps_phase s"
  by (simp_all add: set_phase_def set_mutex_def)

text \<open>At the start no thread runs and no mutex is held; some may be poisoned.\<close>

definition pool_start :: "'r pool_state \<Rightarrow> bool" where
  "pool_start s \<longleftrightarrow> ps_phase s = (\<lambda>t. Idle) \<and> list_all (\<lambda>m. \<not> mx_locked m) (ps_pool s)"

section \<open>Mutual exclusion\<close>

fun phase_lock :: "phase \<Rightarrow> nat option" where
  "phase_lock (Reading i) = Some i"
| "phase_lock (Holding i res buf) = Some i"
| "phase_lock _ = None"

text \<open>Threads below \<open>n\<close> hold (\<open>h\<close>) locked mutexes (\<open>lk\<close>), a mutex has one holder, and a locked mutex
  has a holder.\<close>

definition excl :: "nat \<Rightarrow> nat \<Rightarrow> (nat \<Rightarrow> nat option) \<Rightarrow> (nat \<Rightarrow> bool) \<Rightarrow> bool" where
  "excl n l h lk \<longleftrightarrow>
     (\<forall>t i. h t = Some i \<longrightarrow> t < n \<and> i < l \<and> lk i)
     \<and> (\<forall>t t' i. h t = Some i \<longrightarrow> h t' = Some i \<longrightarrow> t = t')
     \<and> (\<forall>i. i < l \<longrightarrow> lk i \<longrightarrow> (\<exists>t. h t = Some i))"

lemma exclI:
  assumes "\<And>t i. h t = Some i \<Longrightarrow> t < n \<and> i < l \<and> lk i"
    and "\<And>t t' i. h t = Some i \<Longrightarrow> h t' = Some i \<Longrightarrow> t = t'"
    and "\<And>i. i < l \<Longrightarrow> lk i \<Longrightarrow> \<exists>t. h t = Some i"
  shows "excl n l h lk"
  using assms unfolding excl_def by blast

lemma exclD:
  assumes "excl n l h lk"
  shows "h t = Some i \<Longrightarrow> t < n \<and> i < l \<and> lk i"
    and "h t = Some i \<Longrightarrow> h t' = Some i \<Longrightarrow> t = t'"
    and "i < l \<Longrightarrow> lk i \<Longrightarrow> \<exists>t. h t = Some i"
  using assms unfolding excl_def by blast+

lemma excl_acquire:
  assumes ex: "excl n l h lk" and t: "t < n" "h t = None" and i: "i < l" "\<not> lk i"
  shows "excl n l (h(t := Some i)) (lk(i := True))"
proof (rule exclI)
  fix t' j assume "(h(t := Some i)) t' = Some j"
  then show "t' < n \<and> j < l \<and> (lk(i := True)) j"
    using exclD(1) [OF ex, of t' j] t i by (auto split: if_splits)
next
  fix t1 t2 j assume "(h(t := Some i)) t1 = Some j" "(h(t := Some i)) t2 = Some j"
  then show "t1 = t2"
    using exclD(2) [OF ex, of t1 j t2] exclD(1) [OF ex, of t1 j] exclD(1) [OF ex, of t2 j] i
    by (auto split: if_splits)
next
  fix j assume j: "j < l" "(lk(i := True)) j"
  show "\<exists>t'. (h(t := Some i)) t' = Some j"
  proof (cases "j = i")
    case False
    with j exclD(3) [OF ex, of j] obtain t' where "h t' = Some j" by auto
    with t show ?thesis by (intro exI [of _ t']) auto
  qed auto
qed

lemma excl_release:
  assumes ex: "excl n l h lk" and t: "h t = Some i"
  shows "excl n l (h(t := None)) (lk(i := False))"
proof (rule exclI)
  fix t' j assume "(h(t := None)) t' = Some j"
  then show "t' < n \<and> j < l \<and> (lk(i := False)) j"
    using exclD(1) [OF ex, of t' j] exclD(2) [OF ex t, of t'] by (auto split: if_splits)
next
  fix t1 t2 j assume "(h(t := None)) t1 = Some j" "(h(t := None)) t2 = Some j"
  then show "t1 = t2" using exclD(2) [OF ex, of t1 j t2] by (auto split: if_splits)
next
  fix j assume j: "j < l" "(lk(i := False)) j"
  with exclD(3) [OF ex, of j] obtain t' where "h t' = Some j" by (auto split: if_splits)
  with t j show "\<exists>t'. (h(t := None)) t' = Some j" by (intro exI [of _ t']) (auto split: if_splits)
qed

definition holder :: "'r pool_state \<Rightarrow> nat \<Rightarrow> nat option" where
  "holder s t = phase_lock (ps_phase s t)"

definition locked :: "'r pool_state \<Rightarrow> nat \<Rightarrow> bool" where
  "locked s i \<longleftrightarrow> i < length (ps_pool s) \<and> mx_locked (ps_pool s ! i)"

definition exclusive :: "nat \<Rightarrow> 'r pool_state \<Rightarrow> bool" where
  "exclusive n s \<longleftrightarrow> excl n (length (ps_pool s)) (holder s) (locked s)"

lemma holder_set [simp]:
  "holder (set_phase t ph s) = (holder s)(t := phase_lock ph)"
  "holder (set_mutex i m s) = holder s"
  by (auto simp: holder_def fun_eq_iff)

lemma locked_set [simp]:
  "locked (set_phase t ph s) = locked s"
  "i < length (ps_pool s) \<Longrightarrow> locked (set_mutex i m s) = (locked s)(i := mx_locked m)"
  by (auto simp: locked_def fun_eq_iff nth_list_update)

lemma exclusive_start: "pool_start s \<Longrightarrow> exclusive n s"
  by (auto simp: pool_start_def exclusive_def excl_def holder_def locked_def list_all_length)

lemma exclusive_holder:
  assumes "exclusive n s" and "holder s t = Some i"
  shows "t < n" and "i < length (ps_pool s)" and "mx_locked (ps_pool s ! i)"
  using assms by (auto simp: exclusive_def excl_def locked_def)

text \<open>Writing back what holder and mutex already were changes neither.\<close>

lemma upd_same: "h t = x \<Longrightarrow> h(t := x) = h"
  by auto

lemma exclusive_step: "pool_step ops unwind len n req s s' \<Longrightarrow> exclusive n s \<Longrightarrow> exclusive n s'"
proof (induction rule: pool_step.induct)
  case (take_lock t s i)
  then have "holder s t = None" "\<not> locked s i" by (simp_all add: holder_def locked_def try_lock_def)
  with take_lock show ?case by (simp add: exclusive_def excl_acquire)
next
  case (wait_lock t s)
  then have "holder s t = None" "\<not> locked s 0" by (simp_all add: holder_def locked_def)
  with wait_lock show ?case by (simp add: exclusive_def excl_acquire)
next
  case (do_read t s i res buf' r')
  then have h: "holder s t = Some i" by (simp add: holder_def)
  from exclusive_holder [OF do_read.prems h] do_read.prems h show ?case
    by (simp add: exclusive_def upd_same locked_def)
next
  case (release t s i res buf')
  then have h: "holder s t = Some i" by (simp add: holder_def)
  from exclusive_holder [OF release.prems h] release.prems h show ?case
    by (simp add: exclusive_def excl_release)
next
  case (panic t s i r')
  then have h: "holder s t = Some i" by (simp add: holder_def)
  from exclusive_holder [OF panic.prems h] panic.prems h show ?case
    by (simp add: exclusive_def excl_release)
qed (simp_all add: exclusive_def holder_def upd_same)

lemma step_pool_length: "pool_step ops unwind len n req s s' \<Longrightarrow> length (ps_pool s') = length (ps_pool s)"
  by (induction rule: pool_step.induct) auto

section \<open>Progress\<close>

definition all_ended :: "nat \<Rightarrow> 'r pool_state \<Rightarrow> bool" where
  "all_ended n s \<longleftrightarrow>
     list_all (\<lambda>t. case ps_phase s t of Done res buf \<Rightarrow> True | Panicked \<Rightarrow> True | _ \<Rightarrow> False) [0..<n]"

lemma holder_can_step:
  assumes "holder s t = Some i" and "t < n"
  shows "\<exists>s'. pool_step ops unwind len n req s s'"
proof (cases "ps_phase s t")
  case (Reading j)
  obtain res buf' r' where "pool_reader_read ops len (mx_reader (ps_pool s ! j)) (fst (req t)) (snd (req t))
      = (res, buf', r')" by (metis prod_cases3)
  with assms(2) Reading show ?thesis by (blast intro: do_read)
next
  case (Holding j res buf')
  from release [OF assms(2) Holding] show ?thesis by blast
qed (use assms(1) in \<open>simp_all add: holder_def\<close>)

lemma progress:
  assumes "exclusive n s" and "ps_pool s \<noteq> []" and "\<not> all_ended n s"
  shows "\<exists>s'. pool_step ops unwind len n req s s'"
proof -
  from assms(3) obtain t where t: "t < n" and nd: "\<And>res buf. ps_phase s t \<noteq> Done res buf"
    and np: "ps_phase s t \<noteq> Panicked"
    by (auto simp: all_ended_def list_all_iff split: phase.splits)
  show ?thesis
  proof (cases "ps_phase s t")
    case Idle
    then show ?thesis using at_end [OF t Idle] start [OF t Idle] by (meson not_less)
  next
    case (Scanning i)
    then show ?thesis
      using take_lock [OF t Scanning] busy [OF t Scanning] all_busy [OF t Scanning _ assms(2)]
      by (meson not_less)
  next
    case Waiting
    show ?thesis
    proof (cases "mx_locked (ps_pool s ! 0)")
      case True
      then have "locked s 0" using assms(2) by (simp add: locked_def)
      with assms(1,2) obtain t' where "holder s t' = Some 0"
        unfolding exclusive_def using exclD(3) by fastforce
      with holder_can_step exclusive_holder [OF assms(1)] show ?thesis by blast
    next
      case False
      from wait_lock [OF t Waiting assms(2) False] show ?thesis by blast
    qed
  next
    case (Reading i)
    then show ?thesis using holder_can_step [of s t i, OF _ t] by (simp add: holder_def)
  next
    case (Holding i res buf')
    then show ?thesis using holder_can_step [of s t i, OF _ t] by (simp add: holder_def)
  qed (simp_all add: nd np)
qed

text \<open>How many steps a thread still has at most, with a pool of \<open>l\<close> readers.\<close>

fun steps_left :: "nat \<Rightarrow> phase \<Rightarrow> nat" where
  "steps_left l Idle = l + 5"
| "steps_left l (Scanning i) = (l - i) + 4"
| "steps_left l Waiting = 3"
| "steps_left l (Reading i) = 2"
| "steps_left l (Holding i res buf) = 1"
| "steps_left l (Done res buf) = 0"
| "steps_left l Panicked = 0"

definition total_left :: "nat \<Rightarrow> 'r pool_state \<Rightarrow> nat" where
  "total_left n s = (\<Sum>t<n. steps_left (length (ps_pool s)) (ps_phase s t))"

lemma total_left_less:
  assumes "t < n" and "length (ps_pool s') = length (ps_pool s)"
    and "\<And>t'. t' \<noteq> t \<Longrightarrow> ps_phase s' t' = ps_phase s t'"
    and "steps_left (length (ps_pool s)) (ps_phase s' t) < steps_left (length (ps_pool s)) (ps_phase s t)"
  shows "total_left n s' < total_left n s"
  unfolding total_left_def
proof (rule sum_strict_mono_ex1)
  show "\<forall>x \<in> {..<n}. steps_left (length (ps_pool s')) (ps_phase s' x)
      \<le> steps_left (length (ps_pool s)) (ps_phase s x)"
    using assms(2-4) by (metis order_less_imp_le order_refl)
  show "\<exists>x \<in> {..<n}. steps_left (length (ps_pool s')) (ps_phase s' x)
      < steps_left (length (ps_pool s)) (ps_phase s x)"
    using assms by (intro bexI [of _ t]) auto
qed simp

lemma step_total_left: "pool_step ops unwind len n req s s' \<Longrightarrow> total_left n s' < total_left n s"
  by (induction rule: pool_step.induct) (rule total_left_less, assumption, auto)+

lemma steps_bounded:
  assumes "(pool_step ops unwind len n req ^^ k) s s'"
  shows "k + total_left n s' \<le> total_left n s"
  using assms
proof (induction k arbitrary: s')
  case (Suc k)
  then obtain m where "(pool_step ops unwind len n req ^^ k) s m" "pool_step ops unwind len n req m s'" by auto
  with Suc.IH [of m] step_total_left show ?case by fastforce
qed simp

lemma total_left_start: "pool_start s \<Longrightarrow> total_left n s = n * (length (ps_pool s) + 5)"
  by (simp add: total_left_def pool_start_def)

section \<open>Poisoned readers\<close>

text \<open>A poisoned mutex that is not the first is never locked again, since only the first is ever
  waited for: its reader is lost to the pool.\<close>

definition lost :: "nat \<Rightarrow> 'r mutex \<Rightarrow> 'r pool_state \<Rightarrow> bool" where
  "lost i m s \<longleftrightarrow> i < length (ps_pool s) \<and> ps_pool s ! i = m \<and> mx_poisoned m \<and> \<not> mx_locked m \<and> 0 < i"

lemma lost_step: "pool_step ops unwind len n req s s' \<Longrightarrow> exclusive n s \<Longrightarrow> lost i m s \<Longrightarrow> lost i m s'"
proof (induction rule: pool_step.induct)
  case (do_read t s j res buf' r')
  then have "holder s t = Some j" by (simp add: holder_def)
  from exclusive_holder [OF do_read.prems(1) this] do_read.prems(2) show ?case
    by (auto simp: lost_def nth_list_update)
next
  case (release t s j res buf')
  then have "holder s t = Some j" by (simp add: holder_def)
  from exclusive_holder [OF release.prems(1) this] release.prems(2) show ?case
    by (auto simp: lost_def nth_list_update)
next
  case (panic t s j r')
  then have "holder s t = Some j" by (simp add: holder_def)
  from exclusive_holder [OF panic.prems(1) this] panic.prems(2) show ?case
    by (auto simp: lost_def nth_list_update)
qed (auto simp: lost_def try_lock_def nth_list_update)

lemma run_exclusive:
  "(pool_step ops unwind len n req ^^ k) s s' \<Longrightarrow> exclusive n s \<Longrightarrow>
     exclusive n s' \<and> length (ps_pool s') = length (ps_pool s)"
proof (induction k arbitrary: s')
  case (Suc k)
  then obtain m where "(pool_step ops unwind len n req ^^ k) s m" and step: "pool_step ops unwind len n req m s'"
    by auto
  with Suc.IH [of m] Suc.prems(2) exclusive_step [OF step] step_pool_length [OF step] show ?case by simp
qed simp

lemma lost_run:
  "(pool_step ops unwind len n req ^^ k) s s' \<Longrightarrow> exclusive n s \<Longrightarrow> lost i m s \<Longrightarrow> lost i m s'"
proof (induction k arbitrary: s')
  case (Suc k)
  then obtain q where q: "(pool_step ops unwind len n req ^^ k) s q" and step: "pool_step ops unwind len n req q s'"
    by auto
  from lost_step [OF step] run_exclusive [OF q] Suc.IH [OF q] Suc.prems show ?case by blast
qed simp

section \<open>Results\<close>

text \<open>What a read of \<open>content\<close> through the pool must give.\<close>

definition read_answer :: "bytes \<Rightarrow> u64 \<Rightarrow> u64 \<times> bytes \<Rightarrow> nat vfs_result \<Rightarrow> bytes \<Rightarrow> bool" where
  "read_answer content len q res buf' \<longleftrightarrow>
     length buf' = length (snd q)
     \<and> (\<forall>k. res = Inr k \<longrightarrow>
          k = read_count (take (unat len) content) (unat (fst q)) (length (snd q))
          \<and> take k buf' = take (length (snd q)) (drop (unat (fst q)) (take (unat len) content)))"

definition phase_answers :: "bytes \<Rightarrow> u64 \<Rightarrow> u64 \<times> bytes \<Rightarrow> phase \<Rightarrow> bool" where
  "phase_answers content len q ph =
     (case ph of
        Holding i res buf' \<Rightarrow> read_answer content len q res buf'
      | Done res buf' \<Rightarrow> read_answer content len q res buf'
      | Idle \<Rightarrow> True
      | _ \<Rightarrow> fst q < len)"

definition readers_valid :: "('r \<Rightarrow> bool) \<Rightarrow> 'r pool_state \<Rightarrow> bool" where
  "readers_valid valid s \<longleftrightarrow> list_all (\<lambda>m. valid (mx_reader m)) (ps_pool s)"

lemma readers_valid_set:
  "readers_valid valid (set_phase t ph s) = readers_valid valid s"
  "readers_valid valid s \<Longrightarrow> valid (mx_reader m) \<Longrightarrow> readers_valid valid (set_mutex i m s)"
  by (auto simp: readers_valid_def list_all_iff dest!: set_update_subset_insert [THEN subsetD])

lemma read_answer_end: "len \<le> fst q \<Longrightarrow> read_answer content len q (Inr 0) (snd q)"
  by (simp add: read_answer_def read_count_def word_le_nat_alt)

context seekable_reader
begin

lemma read_answers:
  assumes "pool_reader_read ops len r (fst q) (snd q) = (res, buf', r')" and "valid r" and "fst q < len"
  shows "valid r' \<and> read_answer content len q res buf'"
  using pool_reader_read_fits [OF assms] pool_reader_read_ok [of len r "fst q" "snd q" _ buf' r'] assms
  by (auto simp: read_answer_def read_fits_def)

lemma answers_step:
  assumes "pool_step ops unwind len n req s s'" and "exclusive n s" and "ps_pool s \<noteq> []"
    and "readers_valid valid s" and "\<And>t. phase_answers content len (req t) (ps_phase s t)"
    and "\<And>r r'. valid r \<Longrightarrow> unwind r r' \<Longrightarrow> valid r'"
  shows "readers_valid valid s' \<and> phase_answers content len (req t0) (ps_phase s' t0)"
  using assms
proof (induction rule: pool_step.induct)
  case (do_read t s i res buf' r')
  have "holder s t = Some i" using do_read.hyps(2) by (simp add: holder_def)
  from exclusive_holder [OF do_read.prems(1) this] do_read.prems(3)
  have "valid (mx_reader (ps_pool s ! i))" by (auto simp: readers_valid_def list_all_length)
  moreover have "fst (req t) < len"
    using do_read.prems(4) [of t] do_read.hyps(2) by (simp add: phase_answers_def)
  ultimately have "valid r' \<and> read_answer content len (req t) res buf'"
    using read_answers do_read.hyps(3) by blast
  with do_read.prems show ?case by (simp add: readers_valid_set phase_answers_def)
next
  case (release t s i res buf')
  have "holder s t = Some i" using release.hyps(2) by (simp add: holder_def)
  from exclusive_holder [OF release.prems(1) this] release.prems(3)
  have "valid (mx_reader (ps_pool s ! i))" by (auto simp: readers_valid_def list_all_length)
  with release.prems(3) release.prems(4) [of t] release.hyps(2) release.prems(4) [of t0] show ?case
    by (simp add: readers_valid_set phase_answers_def)
next
  case (panic t s i r')
  have "holder s t = Some i" using panic.hyps(2) by (simp add: holder_def)
  from exclusive_holder [OF panic.prems(1) this] panic.prems(3)
  have "valid (mx_reader (ps_pool s ! i))" by (auto simp: readers_valid_def list_all_length)
  with panic.prems(5) panic.hyps(3) have "valid r'" by blast
  with panic.prems(3) panic.prems(4) [of t] panic.hyps(2) panic.prems(4) [of t0] show ?case
    by (simp add: readers_valid_set phase_answers_def)
next
  case (take_lock t s i)
  then have "valid (mx_reader (ps_pool s ! i))" by (auto simp: readers_valid_def list_all_length)
  with take_lock.prems(3) take_lock.prems(4) [of t] take_lock.hyps(2) take_lock.prems(4) [of t0] show ?case
    by (simp add: readers_valid_set phase_answers_def)
next
  case (wait_lock t s)
  then have "valid (mx_reader (ps_pool s ! 0))" by (auto simp: readers_valid_def list_all_length)
  with wait_lock.prems(3) wait_lock.prems(4) [of t] wait_lock.hyps(2) wait_lock.prems(4) [of t0] show ?case
    by (simp add: readers_valid_set phase_answers_def)
next
  case (at_end t s)
  then show ?case
    using at_end.prems(4) [of t0] by (simp add: readers_valid_set phase_answers_def read_answer_end)
next
  case (start t s)
  then show ?case
    using start.prems(4) [of t0] by (simp add: readers_valid_set phase_answers_def)
next
  case (busy t s i)
  then show ?case
    using busy.prems(4) [of t] busy.prems(4) [of t0] by (simp add: readers_valid_set phase_answers_def)
next
  case (all_busy t s i)
  then show ?case
    using all_busy.prems(4) [of t] all_busy.prems(4) [of t0]
    by (simp add: readers_valid_set phase_answers_def)
qed simp

text \<open>In every reachable state: mutual exclusion, valid readers, right answers.\<close>

lemma reachable_pool:
  assumes "(pool_step ops unwind len n req ^^ k) s0 s" and "pool_start s0" and "ps_pool s0 \<noteq> []"
    and "readers_valid valid s0" and "\<And>r r'. valid r \<Longrightarrow> unwind r r' \<Longrightarrow> valid r'"
  shows "exclusive n s \<and> ps_pool s \<noteq> [] \<and> readers_valid valid s
    \<and> (\<forall>t. phase_answers content len (req t) (ps_phase s t))"
  using assms(1)
proof (induction k arbitrary: s)
  case 0
  with assms(2-4) exclusive_start show ?case by (auto simp: pool_start_def phase_answers_def)
next
  case (Suc k)
  then obtain m where "(pool_step ops unwind len n req ^^ k) s0 m" and step: "pool_step ops unwind len n req m s" by auto
  with Suc.IH have m: "exclusive n m" "ps_pool m \<noteq> []" "readers_valid valid m"
    "\<And>t. phase_answers content len (req t) (ps_phase m t)" by blast+
  have "readers_valid valid s \<and> phase_answers content len (req t) (ps_phase s t)" for t
    using answers_step [OF step m] assms(5) by blast
  with exclusive_step [OF step m(1)] step_pool_length [OF step] m(2)
  show ?case by (metis length_0_conv)
qed

end

end
