(* ===== verification/Pool_Properties.thy ===== *)
theory Pool_Properties
  imports Pool_Threads Adapter_Properties
begin

text \<open>
  The properties of concurrent pooled reads, for pools of cursors over a window of a file, and the
  link between the sequential \<open>seek_pool_read_at\<close> and the step relation: it is the run of one
  thread alone.
\<close>

section \<open>One thread alone\<close>

abbreviation solo_step ::
    "'r reader_ops \<Rightarrow> ('r \<Rightarrow> 'r \<Rightarrow> bool) \<Rightarrow> u64 \<Rightarrow> u64 \<Rightarrow> bytes \<Rightarrow> 'r pool_state \<Rightarrow> 'r pool_state \<Rightarrow> bool" where
  "solo_step ops unwind len off buf \<equiv> pool_step ops unwind len 1 (\<lambda>t. (off, buf))"

definition solo :: "'r mutex list \<Rightarrow> phase \<Rightarrow> 'r pool_state" where
  "solo ms ph = \<lparr>ps_pool = ms, ps_phase = (\<lambda>t. Idle)(0 := ph)\<rparr>"

lemma solo_simps [simp]:
  "ps_pool (solo ms ph) = ms" "ps_phase (solo ms ph) 0 = ph"
  "set_phase 0 ph' (solo ms ph) = solo ms ph'" "set_mutex i m (solo ms ph) = solo (ms[i := m]) ph"
  by (simp_all add: solo_def set_phase_def set_mutex_def)

lemma solo_scan:
  assumes "i \<le> j" and "j \<le> length ms" and "\<And>k. i \<le> k \<Longrightarrow> k < j \<Longrightarrow> \<not> try_lock (ms ! k)"
  shows "(solo_step ops unwind len off buf)\<^sup>*\<^sup>* (solo ms (Scanning i)) (solo ms (Scanning j))"
  using assms
proof (induction "j - i" arbitrary: i)
  case (Suc d)
  then have "i < length ms" "\<not> try_lock (ms ! i)" by auto
  from busy [where t = 0 and s = "solo ms (Scanning i)" and i = i] this
  have "solo_step ops unwind len off buf (solo ms (Scanning i)) (solo ms (Scanning (Suc i)))" by simp
  moreover have "(solo_step ops unwind len off buf)\<^sup>*\<^sup>* (solo ms (Scanning (Suc i))) (solo ms (Scanning j))"
    using Suc by auto
  ultimately show ?case by (rule converse_rtranclp_into_rtranclp)
qed simp

lemma first_free_skips:
  "first_free k ms = Some i \<Longrightarrow> k \<le> j \<Longrightarrow> j < i \<Longrightarrow> \<not> try_lock (ms ! (j - k))"
proof (induction ms arbitrary: k)
  case (Cons m ms)
  show ?case
  proof (cases "try_lock m")
    case False
    with Cons.prems have "first_free (Suc k) ms = Some i" by simp
    with Cons.IH [of "Suc k"] Cons.prems False show ?thesis
      by (cases "j = k") (auto simp: nth_Cons')
  qed (use Cons.prems in auto)
qed simp

lemma solo_checkout:
  assumes "checkout ms = Some i" and "list_all (\<lambda>m. \<not> mx_locked m) ms"
  shows "(solo_step ops unwind len off buf)\<^sup>*\<^sup>* (solo ms (Scanning 0))
    (solo (ms[i := (ms ! i)\<lparr>mx_locked := True\<rparr>]) (Reading i))"
proof (cases "first_free 0 ms")
  case (Some j)
  with assms(1) have i: "first_free 0 ms = Some i" by (simp add: checkout_def)
  have bound: "i < length ms" "try_lock (ms ! i)" using first_free_Some [OF i] by auto
  have "(solo_step ops unwind len off buf)\<^sup>*\<^sup>* (solo ms (Scanning 0)) (solo ms (Scanning i))"
    using first_free_skips [OF i] bound by (intro solo_scan) fastforce+
  moreover have "solo_step ops unwind len off buf (solo ms (Scanning i))
      (solo (ms[i := (ms ! i)\<lparr>mx_locked := True\<rparr>]) (Reading i))"
    using take_lock [where t = 0 and s = "solo ms (Scanning i)" and i = i] bound by simp
  ultimately show ?thesis by (rule rtranclp.rtrancl_into_rtrancl)
next
  case None
  with assms(1) have i: "i = 0" and ne: "ms \<noteq> []" by (auto simp: checkout_def split: if_splits)
  have all: "\<not> try_lock m" if "m \<in> set ms" for m using None that by (simp add: first_free_None)
  have "(solo_step ops unwind len off buf)\<^sup>*\<^sup>* (solo ms (Scanning 0)) (solo ms (Scanning (length ms)))"
    using all by (intro solo_scan) auto
  moreover have "solo_step ops unwind len off buf (solo ms (Scanning (length ms))) (solo ms Waiting)"
    using all_busy [where t = 0 and s = "solo ms (Scanning (length ms))"] ne by simp
  moreover have "solo_step ops unwind len off buf (solo ms Waiting)
      (solo (ms[i := (ms ! i)\<lparr>mx_locked := True\<rparr>]) (Reading i))"
    using wait_lock [where t = 0 and s = "solo ms Waiting"] ne assms(2)
    by (simp add: i list_all_length)
  ultimately show ?thesis by (meson rtranclp.rtrancl_into_rtrancl)
qed

lemma solo_run:
  assumes "seek_pool_read_at ops p off buf = (res, buf', p')"
    and "list_all (\<lambda>m. \<not> mx_locked m) (sp_pool p)"
  shows "(solo_step ops unwind (sp_len p) off buf)\<^sup>*\<^sup>* (solo (sp_pool p) Idle) (solo (sp_pool p') (Done res buf'))"
proof (cases "sp_len p \<le> off")
  case True
  then have "solo_step ops unwind (sp_len p) off buf (solo (sp_pool p) Idle) (solo (sp_pool p) (Done (Inr 0) buf))"
    using at_end [where t = 0 and s = "solo (sp_pool p) Idle" and req = "\<lambda>t. (off, buf)"] by simp
  moreover have "res = Inr 0" "buf' = buf" "p' = p"
    using True assms(1) by (simp_all add: seek_pool_read_at_def)
  ultimately show ?thesis by (simp add: r_into_rtranclp)
next
  case False
  let ?step = "solo_step ops unwind (sp_len p) off buf"
  have first: "?step (solo (sp_pool p) Idle) (solo (sp_pool p) (Scanning 0))"
    using start [where t = 0 and s = "solo (sp_pool p) Idle"] False by simp
  show ?thesis
  proof (cases "checkout (sp_pool p)")
    case None
    with assms(1) False have "res = Inr 0" "buf' = buf" "p' = p" "sp_pool p = []"
      by (auto simp: seek_pool_read_at_def checkout_None_iff)
    moreover from this(4) have "solo_step ops unwind (sp_len p) off buf (solo (sp_pool p) (Scanning 0))
        (solo (sp_pool p) (Done (Inr 0) buf))"
      using no_reader [where t = 0 and s = "solo (sp_pool p) (Scanning 0)" and i = 0
          and req = "\<lambda>t. (off, buf)" and ops = ops] by simp
    ultimately show ?thesis
      using first by (auto intro: converse_rtranclp_into_rtranclp)
  next
    case (Some i)
    define m where "m = sp_pool p ! i"
    have i: "i < length (sp_pool p)" by (rule checkout_Some [OF Some])
    obtain r' where rd: "pool_reader_read ops (sp_len p) (mx_reader m) off buf = (res, buf', r')"
      and p': "p' = p\<lparr>sp_pool := (sp_pool p)[i := m\<lparr>mx_reader := r'\<rparr>]\<rparr>"
      using assms(1) Some False by (auto simp: seek_pool_read_at_def m_def split: prod.splits)
    have unlocked: "m\<lparr>mx_reader := r', mx_locked := False\<rparr> = m\<lparr>mx_reader := r'\<rparr>"
      using assms(2) i by (simp add: m_def list_all_length)
    have "?step (solo ((sp_pool p)[i := m\<lparr>mx_locked := True\<rparr>]) (Reading i))
        (solo ((sp_pool p)[i := m\<lparr>mx_locked := True, mx_reader := r'\<rparr>]) (Holding i res buf'))"
      using do_read [where t = 0 and s = "solo ((sp_pool p)[i := m\<lparr>mx_locked := True\<rparr>]) (Reading i)"
          and i = i and ops = ops] rd i by simp
    moreover have "?step (solo ((sp_pool p)[i := m\<lparr>mx_locked := True, mx_reader := r'\<rparr>]) (Holding i res buf'))
        (solo (sp_pool p') (Done res buf'))"
      using release [where t = 0 and i = i and
          s = "solo ((sp_pool p)[i := m\<lparr>mx_locked := True, mx_reader := r'\<rparr>]) (Holding i res buf')"
          and ops = ops] i unlocked p' by simp
    ultimately show ?thesis
      using first solo_checkout [OF Some assms(2), of ops unwind "sp_len p" off buf, folded m_def]
      by (meson converse_rtranclp_into_rtranclp rtranclp.rtrancl_into_rtrancl rtranclp_trans)
  qed
qed

section \<open>Properties\<close>

text \<open>C8: reads through a pool are safe under every interleaving, also when reads panic. Any number
  of threads read one pool of cursors over a window of a file at once, from a state where no lock is
  held (some may be poisoned), and any of them may panic inside its read. In every state they can
  reach, no two threads hold the same reader, and every thread that is done has the answer it would
  have alone: on success the bytes of the window at its own offset, as many as are left, never
  another thread's.\<close>

theorem concurrent_reads_correct:
  assumes "(pool_step cursor_ops cursor_unwind len n req ^^ k) s0 s" and "pool_start s0" and "ps_pool s0 \<noteq> []"
    and "readers_valid (cursor_inv (file_source_source cfg (opened_file f)) base wlen) s0"
  shows "(\<forall>t t' i. holder s t = Some i \<longrightarrow> holder s t' = Some i \<longrightarrow> t = t')
    \<and> (\<forall>t res buf'. ps_phase s t = Done res buf' \<longrightarrow>
        read_answer (window_of (os_bytes f) base wlen) len (req t) res buf')"
proof -
  have r: "exclusive n s \<and> (\<forall>t. phase_answers (window_of (os_bytes f) base wlen) len (req t) (ps_phase s t))"
    using raw_cursor.cursor.reachable_pool [OF assms] cursor_unwind_inv by blast
  have "\<forall>t t' i. holder s t = Some i \<longrightarrow> holder s t' = Some i \<longrightarrow> t = t'"
    using r exclD(2) unfolding exclusive_def by blast
  moreover have "read_answer (window_of (os_bytes f) base wlen) len (req t) res buf'"
    if "ps_phase s t = Done res buf'" for t res buf'
  proof -
    from r have "phase_answers (window_of (os_bytes f) base wlen) len (req t) (ps_phase s t)" by blast
    with that show ?thesis by (simp add: phase_answers_def)
  qed
  ultimately show ?thesis by blast
qed

text \<open>C9: reads through a pool all end. With \<open>n\<close> threads and \<open>l\<close> readers every run has at most
  \<open>n * (l + 5)\<close> steps, and a reachable state in which a thread has not ended always has a next step:
  there is no deadlock, a read that panicked never blocks the others, and every run that is not cut
  short ends with every thread answered or unwound.\<close>

theorem concurrent_reads_finish:
  assumes "(pool_step ops unwind len n req ^^ k) s0 s" and "pool_start s0" and "ps_pool s0 \<noteq> []"
  shows "k \<le> n * (length (ps_pool s0) + 5)
    \<and> (all_ended n s \<or> (\<exists>s'. pool_step ops unwind len n req s s'))"
proof
  show "k \<le> n * (length (ps_pool s0) + 5)"
    using steps_bounded [OF assms(1)] total_left_start [OF assms(2), of n] by simp
  from run_exclusive [OF assms(1) exclusive_start [OF assms(2)]]
  have "exclusive n s \<and> length (ps_pool s) = length (ps_pool s0)" .
  with progress assms(3) show "all_ended n s \<or> (\<exists>s'. pool_step ops unwind len n req s s')"
    by (metis length_0_conv)
qed

text \<open>C36: what a panic costs. Once a reader other than the first is poisoned and free, no run, of
  whatever threads, locks it or changes it again: the pool serves with one reader less for good,
  although \<open>checkout\<close> recovers a poisoned lock when it blocks.\<close>

theorem poisoned_reader_is_lost:
  assumes "(pool_step ops unwind len n req ^^ k) s0 s" and "exclusive n s0"
    and "0 < i" and "i < length (ps_pool s0)"
    and "mx_poisoned (ps_pool s0 ! i)" and "\<not> mx_locked (ps_pool s0 ! i)"
  shows "ps_pool s ! i = ps_pool s0 ! i \<and> (\<forall>t. holder s t \<noteq> Some i)"
proof -
  have "lost i (ps_pool s0 ! i) s0" using assms(3-6) by (simp add: lost_def)
  from lost_run [OF assms(1,2) this] have l: "ps_pool s ! i = ps_pool s0 ! i" by (simp add: lost_def)
  moreover have "holder s t \<noteq> Some i" for t
  proof
    assume "holder s t = Some i"
    from exclusive_holder(3) [OF conjunct1 [OF run_exclusive [OF assms(1,2)]] this] l assms(6)
    show False by simp
  qed
  ultimately show ?thesis by blast
qed

text \<open>C35: \<open>seek_pool_read_at\<close> is the run of one thread alone: whatever the pool, with no lock held,
  the step relation takes that thread from idle to the result, the buffer and the pool that the
  function computes.\<close>

theorem sequential_read_is_a_run:
  assumes "seek_pool_read_at ops p off buf = (res, buf', p')"
    and "list_all (\<lambda>m. \<not> mx_locked m) (sp_pool p)"
  shows "(pool_step ops unwind (sp_len p) 1 (\<lambda>t. (off, buf)))\<^sup>*\<^sup>*
    \<lparr>ps_pool = sp_pool p, ps_phase = (\<lambda>t. Idle)(0 := Idle)\<rparr>
    \<lparr>ps_pool = sp_pool p', ps_phase = (\<lambda>t. Idle)(0 := Done res buf')\<rparr>"
  using solo_run [OF assms] unfolding solo_def .

section \<open>Witnesses\<close>

definition probe_state :: "source_cursor pool_state" where
  "probe_state = \<lparr>ps_pool = sp_pool probe_pool, ps_phase = (\<lambda>t. Idle)\<rparr>"

lemma probe_state_ok:
  "pool_start probe_state" "ps_pool probe_state \<noteq> []" "length (ps_pool probe_state) = 1"
  "readers_valid (cursor_inv (file_source_source Unix (opened_file probe_file)) 1 2) probe_state"
  by (simp_all add: probe_state_def pool_start_def probe_pool_def seek_pool_single_def seek_pool_new_def
      readers_valid_def cursor_inv_new)

lemma probe_solo:
  obtains k s where "(pool_step cursor_ops cursor_unwind 2 1 (\<lambda>t. (0, [0])) ^^ k) probe_state s"
    and "\<exists>res buf'. ps_phase s 0 = Done res buf'"
proof -
  obtain res buf' p' where rd: "seek_pool_read_at cursor_ops probe_pool 0 [0] = (res, buf', p')"
    by (cases "seek_pool_read_at cursor_ops probe_pool 0 [0]")
  have free: "list_all (\<lambda>m. \<not> mx_locked m) (sp_pool probe_pool)" and len: "sp_len probe_pool = 2"
    by (simp_all add: probe_pool_def seek_pool_single_def seek_pool_new_def)
  have "solo (sp_pool probe_pool) Idle = probe_state"
    by (simp add: solo_def probe_state_def fun_upd_idem)
  with solo_run [OF rd free] len obtain k
    where "(pool_step cursor_ops cursor_unwind 2 1 (\<lambda>t. (0, [0])) ^^ k) probe_state (solo (sp_pool p') (Done res buf'))"
    by (auto dest: rtranclp_imp_relpowp)
  then show thesis by (rule that) auto
qed

theorem concurrent_reads_correct_witness:
  "\<exists>(s :: source_cursor pool_state) res buf'. ps_phase s 0 = Done res buf'
     \<and> read_answer (window_of (os_bytes probe_file) 1 2) 2 (0, [0]) res buf'"
proof -
  obtain k s where run: "(pool_step cursor_ops cursor_unwind 2 1 (\<lambda>t. (0, [0])) ^^ k) probe_state s"
    and fin: "\<exists>res buf'. ps_phase s 0 = Done res buf'" by (rule probe_solo)
  from concurrent_reads_correct [OF run probe_state_ok(1,2,4)] fin show ?thesis by blast
qed

theorem concurrent_reads_finish_witness:
  "\<exists>k s. (pool_step cursor_ops cursor_unwind 2 1 (\<lambda>t. (0, [0])) ^^ k) probe_state s \<and> k \<le> 6"
proof -
  obtain k s where run: "(pool_step cursor_ops cursor_unwind 2 1 (\<lambda>t. (0, [0])) ^^ k) probe_state s"
    by (rule probe_solo)
  from concurrent_reads_finish [OF run probe_state_ok(1,2)] run probe_state_ok(3) show ?thesis by auto
qed

text \<open>Two readers, of which the second is poisoned, and one read, which locks the first.\<close>

definition worn_state :: "source_cursor pool_state" where
  "worn_state = probe_state\<lparr>ps_pool :=
     ps_pool probe_state @ map (mx_poisoned_update (\<lambda>_. True)) (ps_pool probe_state)\<rparr>"

lemma worn_run:
  "\<exists>s. (pool_step cursor_ops cursor_unwind 2 1 (\<lambda>t. (0, [0])) ^^ 2) worn_state s \<and> holder s 0 = Some 0"
proof -
  let ?s = "set_phase 0 (Scanning 0) worn_state"
  let ?s' = "set_phase 0 (Reading 0) (set_mutex 0 ((ps_pool ?s ! 0)\<lparr>mx_locked := True\<rparr>) ?s)"
  have "pool_step cursor_ops cursor_unwind 2 1 (\<lambda>t. (0, [0])) worn_state ?s"
    by (rule start) (simp_all add: worn_state_def probe_state_def)
  moreover have "pool_step cursor_ops cursor_unwind 2 1 (\<lambda>t. (0, [0])) ?s ?s'"
    by (rule take_lock)
      (simp_all add: worn_state_def probe_state_def probe_pool_def seek_pool_single_def seek_pool_new_def
        try_lock_def)
  ultimately have "(pool_step cursor_ops cursor_unwind 2 1 (\<lambda>t. (0, [0])) ^^ 2) worn_state ?s'"
    by (auto simp: numeral_2_eq_2)
  then show ?thesis by (intro exI [of _ ?s']) (simp add: holder_def)
qed

theorem poisoned_reader_is_lost_witness:
  "\<exists>s. holder s 0 = Some 0 \<and> ps_pool s ! 1 = ps_pool worn_state ! 1"
proof -
  obtain s where run: "(pool_step cursor_ops cursor_unwind 2 1 (\<lambda>t. (0, [0])) ^^ 2) worn_state s"
    and h: "holder s 0 = Some 0" using worn_run by blast
  have "pool_start worn_state"
    by (simp add: worn_state_def pool_start_def probe_state_def probe_pool_def seek_pool_single_def
        seek_pool_new_def)
  moreover have "1 < length (ps_pool worn_state)" "mx_poisoned (ps_pool worn_state ! 1)"
    "\<not> mx_locked (ps_pool worn_state ! 1)"
    by (simp_all add: worn_state_def probe_state_def probe_pool_def seek_pool_single_def seek_pool_new_def)
  ultimately show ?thesis
    using poisoned_reader_is_lost [OF run exclusive_start zero_less_one] h by blast
qed

theorem sequential_read_is_a_run_witness:
  "\<exists>res buf' (p' :: source_cursor seek_pool). (pool_step cursor_ops cursor_unwind 2 1 (\<lambda>t. (0, [0])))\<^sup>*\<^sup>*
    \<lparr>ps_pool = sp_pool probe_pool, ps_phase = (\<lambda>t. Idle)(0 := Idle)\<rparr>
    \<lparr>ps_pool = sp_pool p', ps_phase = (\<lambda>t. Idle)(0 := Done res buf')\<rparr>"
proof -
  obtain res buf' p' where rd: "seek_pool_read_at cursor_ops probe_pool 0 [0] = (res, buf', p')"
    by (cases "seek_pool_read_at cursor_ops probe_pool 0 [0]")
  have "list_all (\<lambda>m. \<not> mx_locked m) (sp_pool probe_pool)" and "sp_len probe_pool = 2"
    by (simp_all add: probe_pool_def seek_pool_single_def seek_pool_new_def)
  with sequential_read_is_a_run [OF rd] show ?thesis by (intro exI) simp
qed

end
