(* ===== verification/Resolver.thy ===== *)
theory Resolver
  imports Locator
begin

text \<open>
  The generic layer resolver (\<open>crates/resolver/src/lib.rs\<close>): the sniff buffers and the window built
  of them, and the descent through filesystems, volume systems, signature encryption, containers,
  archives and credential-attempt encryption.

  Every \<open>for\<close> loop of the descent that returns its first find is \<open>try_each\<close>, and
  \<open>if let Some(found) = r? { return Ok(Some(found)); }\<close> before the rest is \<open>or_try\<close>. The free
  functions of the source take the recursive call as a function, as \<open>descend_packaging\<close> does in
  the code; congruence rules say that they only call it one level deeper, which is why the
  recursion ends. A depth never exceeds \<open>max_depth + 1\<close>, so it is a \<open>nat\<close>.
\<close>

section \<open>First find\<close>

fun try_each :: "('a \<Rightarrow> 'b option vfs_result) \<Rightarrow> 'a list \<Rightarrow> 'b option vfs_result" where
  "try_each f [] = Inr None"
| "try_each f (x # xs) =
     res_bind (f x) (\<lambda>r. case r of Some y \<Rightarrow> Inr (Some y) | None \<Rightarrow> try_each f xs)"

definition or_try :: "'b option vfs_result \<Rightarrow> 'b option vfs_result \<Rightarrow> 'b option vfs_result" where
  "or_try r rest = res_bind r (\<lambda>found. case found of Some y \<Rightarrow> Inr (Some y) | None \<Rightarrow> rest)"

lemma try_each_cong [fundef_cong]:
  "xs = ys \<Longrightarrow> (\<And>x. x \<in> set ys \<Longrightarrow> f x = g x) \<Longrightarrow> try_each f xs = try_each g ys"
  by (induction xs arbitrary: ys) (auto intro!: res_bind_cong split: option.splits)

lemma or_try_cong [fundef_cong]:
  "r = r' \<Longrightarrow> (r' = Inr None \<Longrightarrow> k = k') \<Longrightarrow> or_try r k = or_try r' k'"
  by (cases r') (auto simp: or_try_def split: option.splits)

lemma or_try_simps [simp]:
  "or_try (Inl e) k = Inl e" "or_try (Inr (Some y)) k = Inr (Some y)" "or_try (Inr None) k = k"
  by (simp_all add: or_try_def)

lemma or_try_Some_iff:
  "or_try r k = Inr (Some y) \<longleftrightarrow> r = Inr (Some y) \<or> (r = Inr None \<and> k = Inr (Some y))"
  by (cases r) (auto simp: or_try_def split: option.splits)

lemma or_try_None_iff: "or_try r k = Inr None \<longleftrightarrow> r = Inr None \<and> k = Inr None"
  by (cases r) (auto simp: or_try_def split: option.splits)

lemma try_each_Some: "try_each f xs = Inr (Some y) \<Longrightarrow> \<exists>x \<in> set xs. f x = Inr (Some y)"
  by (induction xs) (auto simp: res_bind_Inr_iff split: option.splits)

lemma try_each_None_iff: "try_each f xs = Inr None \<longleftrightarrow> (\<forall>x \<in> set xs. f x = Inr None)"
  by (induction xs) (auto simp: res_bind_Inr_iff split: option.splits)

lemma try_each_append: "try_each f (xs @ ys) = or_try (try_each f xs) (try_each f ys)"
proof (induction xs)
  case (Cons x xs)
  then show ?case by (cases "f x") (auto split: option.splits)
qed simp

lemma try_each_skip: "(\<And>x. x \<in> set xs \<Longrightarrow> f x = Inr None) \<Longrightarrow> try_each f xs = Inr None"
  by (simp add: try_each_None_iff)

section \<open>Constants and results\<close>

definition max_depth :: nat where
  "max_depth = 8"

definition sniff_cap :: u64 where
  "sniff_cap = 128 * 1024"

definition tail_cap_max :: u64 where
  "tail_cap_max = 4096"

record 'k evidence =
  ev_root :: "'k locator"
  ev_fs :: "'k file_system option"

record 'k resolved =
  rs_fs :: "'k file_system"
  rs_spec :: "'k locator"
  rs_source :: dyn_source
  rs_source_spec :: "'k locator"

record 'k resolved_source =
  rsrc_source :: dyn_source
  rsrc_spec :: "'k locator"

record 'k resolved_tree =
  rt_fs :: "'k file_system"
  rt_spec :: "'k locator"

section \<open>Sniffing\<close>

type_synonym sniff_buffers = "bytes \<times> nat \<times> bytes \<times> nat \<times> u64"

text \<open>\<open>total.clamp(1, SNIFF_CAP)\<close> and \<open>total.min(TAIL_CAP)\<close>.\<close>

definition head_cap :: "u64 \<Rightarrow> u64" where
  "head_cap total_len = max 1 (min total_len sniff_cap)"

definition tail_cap :: "u64 \<Rightarrow> u64" where
  "tail_cap total_len = min total_len tail_cap_max"

definition read_sniff_buffers :: "dyn_source \<Rightarrow> sniff_buffers vfs_result" where
  "read_sniff_buffers source =
     (let total_len = src_len source
      in case src_read_at source 0 (replicate (unat (head_cap total_len)) 0) of
           (Inl e, head) \<Rightarrow> Inl e
         | (Inr n, head) \<Rightarrow>
             (let tail_start = total_len - tail_cap total_len
              in case src_read_at source tail_start (replicate (unat (tail_cap total_len)) 0) of
                   (Inl e, tail) \<Rightarrow> Inl e
                 | (Inr tn, tail) \<Rightarrow> Inr (head, n, tail, tn, total_len)))"

fun window_of_buffers :: "sniff_buffers \<Rightarrow> sniff_window" where
  "window_of_buffers (head, n, tail, tn, total_len) =
     sniff_window_with_tail 0 (prefix_or_empty n head) total_len (prefix_or_empty tn tail)"

section \<open>The descents\<close>

type_synonym ('k, 'r) recursor = "dyn_source \<Rightarrow> 'k locator \<Rightarrow> nat \<Rightarrow> 'r option vfs_result"

definition descend_filesystems ::
    "'k openers \<Rightarrow> sniff_window \<Rightarrow> dyn_source \<Rightarrow> 'k locator \<Rightarrow> 'k resolved option vfs_result" where
  "descend_filesystems ops window source spec =
     try_each (\<lambda>probe.
       if is_candidate (fo_probe probe window) then
         res_bind (fo_open probe source) (\<lambda>fs.
           let fs_spec = locator_push spec (FsLayer (fo_kind probe) (PathAddr []))
           in Inr (Some \<lparr>rs_fs = fs, rs_spec = fs_spec, rs_source = source,
                         rs_source_spec = spec\<rparr>))
       else Inr None) (op_filesystems ops)"

definition descend_volumes ::
    "'k openers \<Rightarrow> sniff_window \<Rightarrow> dyn_source \<Rightarrow> 'k locator \<Rightarrow> nat \<Rightarrow> ('k, 'r) recursor
       \<Rightarrow> 'r option vfs_result" where
  "descend_volumes ops window source spec depth recurse =
     try_each (\<lambda>vsp.
       if is_candidate (vo_probe vsp window) then
         res_bind (vo_open vsp source) (\<lambda>vs.
           try_each (\<lambda>index.
             res_bind (vs_open_volume vs index) (\<lambda>sub.
               recurse sub
                 (locator_push spec (VolumeLayer (vo_scheme vsp) (word_of_nat index) None))
                 (depth + 1)))
             [0..<length (vs_volumes vs)])
       else Inr None) (op_volume_systems ops)"

text \<open>The eager pass also fills \<open>credential_attempt\<close>: the loop carries the index of the opener and
  the indices pushed so far.\<close>

fun signature_loop ::
    "sniff_window \<Rightarrow> dyn_source \<Rightarrow> 'k locator \<Rightarrow> nat \<Rightarrow> credential_source \<Rightarrow> ('k, 'r) recursor
       \<Rightarrow> nat \<Rightarrow> encryption_open list \<Rightarrow> nat list \<Rightarrow> ('r option \<times> nat list) vfs_result" where
  "signature_loop window source spec depth creds recurse i [] attempt = Inr (None, attempt)"
| "signature_loop window source spec depth creds recurse i (enc # encs) attempt =
     (case eo_probe enc window of
        Yes how \<Rightarrow>
          res_bind (eo_open enc source) (\<lambda>layer.
          res_bind (el_open layer creds) (\<lambda>decrypted.
          res_bind (recurse decrypted (locator_push spec (EncryptionLayer (eo_scheme enc)))
                     (depth + 1)) (\<lambda>r.
            case r of
              Some found \<Rightarrow> Inr (Some found, attempt)
            | None \<Rightarrow>
                signature_loop window source spec depth creds recurse (i + 1) encs attempt)))
      | Maybe \<Rightarrow>
          signature_loop window source spec depth creds recurse (i + 1) encs (attempt @ [i])
      | No \<Rightarrow> signature_loop window source spec depth creds recurse (i + 1) encs attempt)"

definition descend_signature_encryption ::
    "'k openers \<Rightarrow> sniff_window \<Rightarrow> dyn_source \<Rightarrow> 'k locator \<Rightarrow> nat \<Rightarrow> credential_source
       \<Rightarrow> nat list \<Rightarrow> ('k, 'r) recursor \<Rightarrow> ('r option \<times> nat list) vfs_result" where
  "descend_signature_encryption ops window source spec depth creds attempt recurse =
     signature_loop window source spec depth creds recurse 0 (op_encryption ops) attempt"

definition descend_packaging ::
    "'k openers \<Rightarrow> sniff_window \<Rightarrow> dyn_source \<Rightarrow> 'k locator \<Rightarrow> nat \<Rightarrow> ('k, 'r) recursor
       \<Rightarrow> 'r option vfs_result" where
  "descend_packaging ops window source spec depth recurse =
     or_try
       (try_each (\<lambda>cd.
          if is_candidate (co_probe cd window) then
            res_bind (co_open cd source) (\<lambda>decoded.
              recurse decoded (locator_push spec (ContainerLayer (co_format cd))) (depth + 1))
          else Inr None) (op_containers ops))
       (try_each (\<lambda>ar.
          if is_candidate (ao_probe ar window) then
            res_bind (ao_open ar source) (\<lambda>contents.
              case contents of
                ArchiveStream inner \<Rightarrow>
                  recurse inner (locator_push spec (ArchiveLayer None)) (depth + 1)
              | ArchiveMembers members \<Rightarrow>
                  try_each (\<lambda>(index, m).
                    recurse (mem_source m)
                      (locator_push spec (ArchiveLayer (Some (word_of_nat index)))) (depth + 1))
                    (enumerate 0 members))
          else Inr None) (op_archives ops))"

text \<open>The last resort: a failed construction of the layer is loud, a failed decryption continues.\<close>

definition descend_credential_attempt_encryption ::
    "'k openers \<Rightarrow> dyn_source \<Rightarrow> 'k locator \<Rightarrow> nat \<Rightarrow> credential_source \<Rightarrow> nat list
       \<Rightarrow> ('k, 'r) recursor \<Rightarrow> 'r option vfs_result" where
  "descend_credential_attempt_encryption ops source spec depth creds attempt recurse =
     try_each (\<lambda>i.
       case list_get i (op_encryption ops) of
         None \<Rightarrow> Inr None
       | Some enc \<Rightarrow>
           res_bind (eo_open enc source) (\<lambda>layer.
             case el_open layer creds of
               Inl _ \<Rightarrow> Inr None
             | Inr decrypted \<Rightarrow>
                 recurse decrypted (locator_push spec (EncryptionLayer (eo_scheme enc)))
                   (depth + 1))) attempt"

section \<open>The recursion\<close>

lemma descend_volumes_cong [fundef_cong]:
  "ops = ops' \<Longrightarrow> w = w' \<Longrightarrow> s = s' \<Longrightarrow> spec = spec' \<Longrightarrow> d = d' \<Longrightarrow>
   (\<And>src sp. f src sp (d' + 1) = g src sp (d' + 1)) \<Longrightarrow>
     descend_volumes ops w s spec d f = descend_volumes ops' w' s' spec' d' g"
  by (simp only: descend_volumes_def)

lemma descend_packaging_cong [fundef_cong]:
  "ops = ops' \<Longrightarrow> w = w' \<Longrightarrow> s = s' \<Longrightarrow> spec = spec' \<Longrightarrow> d = d' \<Longrightarrow>
   (\<And>src sp. f src sp (d' + 1) = g src sp (d' + 1)) \<Longrightarrow>
     descend_packaging ops w s spec d f = descend_packaging ops' w' s' spec' d' g"
  by (simp only: descend_packaging_def)

lemma signature_loop_cong:
  "(\<And>src sp. f src sp (d + 1) = g src sp (d + 1)) \<Longrightarrow>
     signature_loop w s spec d creds f i encs att = signature_loop w s spec d creds g i encs att"
  by (induction encs arbitrary: i att)
     (auto intro!: res_bind_cong split: confidence.splits option.splits)

lemma descend_signature_cong [fundef_cong]:
  "ops = ops' \<Longrightarrow> w = w' \<Longrightarrow> s = s' \<Longrightarrow> spec = spec' \<Longrightarrow> d = d' \<Longrightarrow> c = c' \<Longrightarrow> att = att' \<Longrightarrow>
   (\<And>src sp. f src sp (d' + 1) = g src sp (d' + 1)) \<Longrightarrow>
     descend_signature_encryption ops w s spec d c att f
       = descend_signature_encryption ops' w' s' spec' d' c' att' g"
  unfolding descend_signature_encryption_def by (hypsubst, rule signature_loop_cong)

lemma descend_attempt_cong [fundef_cong]:
  "ops = ops' \<Longrightarrow> s = s' \<Longrightarrow> spec = spec' \<Longrightarrow> d = d' \<Longrightarrow> c = c' \<Longrightarrow> att = att' \<Longrightarrow>
   (\<And>src sp. f src sp (d' + 1) = g src sp (d' + 1)) \<Longrightarrow>
     descend_credential_attempt_encryption ops s spec d c att f
       = descend_credential_attempt_encryption ops' s' spec' d' c' att' g"
  by (simp only: descend_credential_attempt_encryption_def)

function open_with_credentials ::
    "'k openers \<Rightarrow> credential_source \<Rightarrow> dyn_source \<Rightarrow> 'k locator \<Rightarrow> nat
       \<Rightarrow> 'k resolved option vfs_result" where
  "open_with_credentials ops creds source spec depth =
     (if depth > max_depth then Inr None
      else
        res_bind (read_sniff_buffers source) (\<lambda>buffers.
        let window = window_of_buffers buffers in
        or_try (descend_filesystems ops window source spec)
        (or_try (descend_volumes ops window source spec depth
                  (\<lambda>src sp d. open_with_credentials ops creds src sp d))
        (res_bind (descend_signature_encryption ops window source spec depth creds []
                    (\<lambda>src sp d. open_with_credentials ops creds src sp d))
          (\<lambda>(found, credential_attempt).
            or_try (Inr found)
            (or_try (descend_packaging ops window source spec depth
                      (\<lambda>src sp d. open_with_credentials ops creds src sp d))
              (descend_credential_attempt_encryption ops source spec depth creds
                 credential_attempt
                 (\<lambda>src sp d. open_with_credentials ops creds src sp d))))))))"
  by pat_completeness auto
termination
  by (relation "measure (\<lambda>(ops, creds, source, spec, depth). max_depth + 1 - depth)") auto

declare open_with_credentials.simps [simp del]

text \<open>The provided method \<open>open\<close>.\<close>

definition open_source ::
    "'k openers \<Rightarrow> dyn_source \<Rightarrow> 'k locator \<Rightarrow> nat \<Rightarrow> 'k resolved option vfs_result" where
  "open_source ops source spec depth = open_with_credentials ops no_credentials source spec depth"

function resolve_to_source ::
    "'k openers \<Rightarrow> dyn_source \<Rightarrow> 'k locator \<Rightarrow> nat \<Rightarrow> 'k resolved_source option vfs_result" where
  "resolve_to_source ops source spec depth =
     (if depth > max_depth then Inr None
      else
        res_bind (read_sniff_buffers source) (\<lambda>buffers.
        let window = window_of_buffers buffers in
        or_try (descend_packaging ops window source spec depth
                 (\<lambda>src sp d. resolve_to_source ops src sp d))
          (Inr (Some \<lparr>rsrc_source = source, rsrc_spec = spec\<rparr>))))"
  by pat_completeness auto
termination
  by (relation "measure (\<lambda>(ops, source, spec, depth). max_depth + 1 - depth)") auto

declare resolve_to_source.simps [simp del]

section \<open>Directory-rooted evidence\<close>

definition open_tree ::
    "'k openers \<Rightarrow> bytes \<Rightarrow> credential_source \<Rightarrow> 'k resolved_tree option vfs_result" where
  "open_tree ops root creds =
     try_each (\<lambda>opener.
       if \<not> is_candidate (to_probe opener root) then Inr None
       else
         res_bind (to_open opener root creds) (\<lambda>fs.
           Inr (Some \<lparr>rt_fs = fs, rt_spec = locator_directory root\<rparr>)))
       (op_trees ops)"

end
