(* ===== verification/Resolver_Spec.thy ===== *)
theory Resolver_Spec
  imports Resolver
begin

text \<open>
  An abstract specification of the descent and the proof that the resolver implements it: one
  ordered list of attempts, filesystems, volumes, schemes with a signature, packaging, and last the
  schemes that only a credential can try, in registration order within each. The code's list of
  indices between the two encryption passes becomes a filter of the openers.
\<close>

section \<open>Encryption passes over openers\<close>

definition signature_step ::
    "sniff_window \<Rightarrow> dyn_source \<Rightarrow> 'k locator \<Rightarrow> nat \<Rightarrow> credential_source \<Rightarrow> ('k, 'r) recursor
       \<Rightarrow> encryption_open \<Rightarrow> 'r option vfs_result" where
  "signature_step w source spec depth creds recurse enc =
     (if is_yes (eo_probe enc w) then
        res_bind (eo_open enc source) (\<lambda>layer.
        res_bind (el_open layer creds) (\<lambda>decrypted.
          recurse decrypted (locator_push spec (EncryptionLayer (eo_scheme enc))) (depth + 1)))
      else Inr None)"

definition attempt_step ::
    "dyn_source \<Rightarrow> 'k locator \<Rightarrow> nat \<Rightarrow> credential_source \<Rightarrow> ('k, 'r) recursor
       \<Rightarrow> encryption_open \<Rightarrow> 'r option vfs_result" where
  "attempt_step source spec depth creds recurse enc =
     res_bind (eo_open enc source) (\<lambda>layer.
       case el_open layer creds of
         Inl _ \<Rightarrow> Inr None
       | Inr decrypted \<Rightarrow>
           recurse decrypted (locator_push spec (EncryptionLayer (eo_scheme enc))) (depth + 1))"

definition maybes :: "sniff_window \<Rightarrow> encryption_open list \<Rightarrow> encryption_open list" where
  "maybes w encs = filter (\<lambda>enc. eo_probe enc w = Maybe) encs"

definition maybe_indices :: "sniff_window \<Rightarrow> nat \<Rightarrow> encryption_open list \<Rightarrow> nat list" where
  "maybe_indices w i encs = map fst (filter (\<lambda>(j, enc). eo_probe enc w = Maybe) (enumerate i encs))"

lemma maybe_indices_simps [simp]:
  "maybe_indices w i [] = []"
  "maybe_indices w i (enc # encs) =
     (if eo_probe enc w = Maybe then [i] else []) @ maybe_indices w (Suc i) encs"
  by (simp_all add: maybe_indices_def)

lemma signature_loop_spec:
  "res_bind (signature_loop w source spec depth creds f i encs att) (\<lambda>(found, a). or_try (Inr found) (k a))
     = or_try (try_each (signature_step w source spec depth creds f) encs)
         (k (att @ maybe_indices w i encs))"
proof (induction encs arbitrary: i att)
  case Nil
  show ?case by simp
next
  case (Cons enc encs)
  let ?sp = "locator_push spec (EncryptionLayer (eo_scheme enc))"
  show ?case
  proof (cases "eo_probe enc w")
    case (Yes how)
    show ?thesis
    proof (cases "eo_open enc source")
      case (Inr layer)
      show ?thesis
      proof (cases "el_open layer creds")
        case (Inr dec)
        with Yes \<open>eo_open enc source = Inr layer\<close> Cons.IH show ?thesis
          by (cases "f dec ?sp (Suc depth)")
             (auto simp: signature_step_def split: option.splits)
      qed (simp add: Yes Inr signature_step_def)
    qed (simp add: Yes signature_step_def)
  qed (use Cons.IH in \<open>auto simp: signature_step_def\<close>)
qed

lemma map_nth_indices:
  "map (\<lambda>j. list_get j (pre @ encs)) (maybe_indices w (length pre) encs) = map Some (maybes w encs)"
proof (induction encs arbitrary: pre)
  case (Cons enc encs)
  from Cons.IH [of "pre @ [enc]"] show ?case
    by (simp add: maybes_def list_get_def)
qed (simp add: maybes_def)

lemma try_each_map: "try_each f (map g xs) = try_each (f \<circ> g) xs"
  by (induction xs) simp_all

lemma attempt_pass_spec:
  "descend_credential_attempt_encryption ops source spec depth creds
       (maybe_indices w 0 (op_encryption ops)) f
     = try_each (attempt_step source spec depth creds f) (maybes w (op_encryption ops))"
proof -
  let ?h = "\<lambda>x. case x of None \<Rightarrow> Inr None | Some enc \<Rightarrow> attempt_step source spec depth creds f enc"
  have "descend_credential_attempt_encryption ops source spec depth creds att f
      = try_each ?h (map (\<lambda>j. list_get j (op_encryption ops)) att)" for att
    unfolding try_each_map descend_credential_attempt_encryption_def attempt_step_def comp_def ..
  moreover have "map (\<lambda>j. list_get j (op_encryption ops)) (maybe_indices w 0 (op_encryption ops))
      = map Some (maybes w (op_encryption ops))"
    using map_nth_indices [of "[]" "op_encryption ops" w] by simp
  moreover have "try_each ?h (map Some encs) = try_each (attempt_step source spec depth creds f) encs"
    for encs by (simp add: try_each_map comp_def)
  ultimately show ?thesis by simp
qed

section \<open>The ordered descent\<close>

definition ordered_descent ::
    "'k openers \<Rightarrow> sniff_window \<Rightarrow> dyn_source \<Rightarrow> 'k locator \<Rightarrow> nat \<Rightarrow> credential_source
       \<Rightarrow> ('k, 'k resolved) recursor \<Rightarrow> 'k resolved option vfs_result" where
  "ordered_descent ops w source spec depth creds recurse =
     try_each id
       [descend_filesystems ops w source spec,
        descend_volumes ops w source spec depth recurse,
        try_each (signature_step w source spec depth creds recurse) (op_encryption ops),
        descend_packaging ops w source spec depth recurse,
        try_each (attempt_step source spec depth creds recurse) (maybes w (op_encryption ops))]"

lemma or_try_Inr_None [simp]: "or_try r (Inr None) = r"
  by (cases r) (auto simp: or_try_def split: option.splits)

lemma ordered_descent_or_try:
  "ordered_descent ops w source spec depth creds recurse =
     or_try (descend_filesystems ops w source spec)
     (or_try (descend_volumes ops w source spec depth recurse)
     (or_try (try_each (signature_step w source spec depth creds recurse) (op_encryption ops))
     (or_try (descend_packaging ops w source spec depth recurse)
       (try_each (attempt_step source spec depth creds recurse) (maybes w (op_encryption ops))))))"
  by (simp add: ordered_descent_def or_try_def [symmetric])

definition claim_window :: "dyn_source \<Rightarrow> sniff_window vfs_result" where
  "claim_window source = res_bind (read_sniff_buffers source) (\<lambda>b. Inr (window_of_buffers b))"

lemma open_eq_descent:
  "open_with_credentials ops creds source spec depth =
     (if depth > max_depth then Inr None
      else res_bind (claim_window source) (\<lambda>w.
        ordered_descent ops w source spec depth creds (open_with_credentials ops creds)))"
proof (cases "depth > max_depth")
  case False
  then show ?thesis
    by (subst open_with_credentials.simps)
       (cases "read_sniff_buffers source";
        simp add: claim_window_def Let_def descend_signature_encryption_def signature_loop_spec
          attempt_pass_spec ordered_descent_or_try)
qed (simp add: open_with_credentials.simps)

lemma resolve_eq:
  "resolve_to_source ops source spec depth =
     (if depth > max_depth then Inr None
      else res_bind (claim_window source) (\<lambda>w.
        or_try (descend_packaging ops w source spec depth (resolve_to_source ops))
          (Inr (Some \<lparr>rsrc_source = source, rsrc_spec = spec\<rparr>))))"
proof (cases "depth > max_depth")
  case False
  then show ?thesis
    by (subst resolve_to_source.simps) (cases "read_sniff_buffers source"; simp add: claim_window_def)
qed (simp add: resolve_to_source.simps)

end
