(* ===== verification/Peeling.thy ===== *)
theory Peeling
  imports Resolver_Spec
begin

text \<open>
  What the descent can reach, as step relations on pairs of a source and its locator: \<open>unpack\<close> is
  one packaging layer, \<open>peel\<close> one layer of any kind that an opener claimed and opened. The lemmas
  connect the descents with the relations in both directions: a find is found at a peeled child,
  and when nothing is found every peeled child was searched without a find.
\<close>

inductive unpack ::
    "'k openers \<Rightarrow> dyn_source \<times> 'k locator \<Rightarrow> dyn_source \<times> 'k locator \<Rightarrow> bool"
  for ops :: "'k openers" where
  unpack_container:
    "claim_window s = Inr w \<Longrightarrow> cd \<in> set (op_containers ops) \<Longrightarrow> is_candidate (co_probe cd w) \<Longrightarrow>
     co_open cd s = Inr s' \<Longrightarrow>
     unpack ops (s, spec) (s', locator_push spec (ContainerLayer (co_format cd)))"
| unpack_stream:
    "claim_window s = Inr w \<Longrightarrow> ar \<in> set (op_archives ops) \<Longrightarrow> is_candidate (ao_probe ar w) \<Longrightarrow>
     ao_open ar s = Inr (ArchiveStream s') \<Longrightarrow>
     unpack ops (s, spec) (s', locator_push spec (ArchiveLayer None))"
| unpack_member:
    "claim_window s = Inr w \<Longrightarrow> ar \<in> set (op_archives ops) \<Longrightarrow> is_candidate (ao_probe ar w) \<Longrightarrow>
     ao_open ar s = Inr (ArchiveMembers ms) \<Longrightarrow> i < length ms \<Longrightarrow> s' = mem_source (ms ! i) \<Longrightarrow>
     unpack ops (s, spec) (s', locator_push spec (ArchiveLayer (Some (word_of_nat i))))"

inductive peel ::
    "'k openers \<Rightarrow> credential_source \<Rightarrow> dyn_source \<times> 'k locator \<Rightarrow> dyn_source \<times> 'k locator \<Rightarrow> bool"
  for ops :: "'k openers" and creds :: credential_source where
  peel_packaging: "unpack ops p q \<Longrightarrow> peel ops creds p q"
| peel_volume:
    "claim_window s = Inr w \<Longrightarrow> vsp \<in> set (op_volume_systems ops) \<Longrightarrow> is_candidate (vo_probe vsp w) \<Longrightarrow>
     vo_open vsp s = Inr vs \<Longrightarrow> i < length (vs_volumes vs) \<Longrightarrow> vs_open_volume vs i = Inr s' \<Longrightarrow>
     peel ops creds (s, spec)
       (s', locator_push spec (VolumeLayer (vo_scheme vsp) (word_of_nat i) None))"
| peel_encryption:
    "claim_window s = Inr w \<Longrightarrow> enc \<in> set (op_encryption ops) \<Longrightarrow> is_candidate (eo_probe enc w) \<Longrightarrow>
     eo_open enc s = Inr layer \<Longrightarrow> el_open layer creds = Inr s' \<Longrightarrow>
     peel ops creds (s, spec) (s', locator_push spec (EncryptionLayer (eo_scheme enc)))"

inductive_cases unpackE: "unpack ops p q"
inductive_cases peelE: "peel ops creds p q"

text \<open>The layer that a step adds.\<close>

definition packaging_layer :: "'k layer \<Rightarrow> bool" where
  "packaging_layer l = (case l of ContainerLayer _ \<Rightarrow> True | ArchiveLayer _ \<Rightarrow> True | _ \<Rightarrow> False)"

definition descent_layer :: "'k layer \<Rightarrow> bool" where
  "descent_layer l =
     (case l of ContainerLayer _ \<Rightarrow> True | ArchiveLayer _ \<Rightarrow> True | VolumeLayer _ _ None \<Rightarrow> True
      | EncryptionLayer _ \<Rightarrow> True | _ \<Rightarrow> False)"

lemma unpack_layers:
  "unpack ops p q \<Longrightarrow> \<exists>l. packaging_layer l \<and> locator_layers (snd q) = locator_layers (snd p) @ [l]"
  by (erule unpackE) (auto simp: packaging_layer_def)

lemma peel_layers:
  "peel ops creds p q \<Longrightarrow> \<exists>l. descent_layer l \<and> locator_layers (snd q) = locator_layers (snd p) @ [l]"
  by (erule peelE) (auto simp: descent_layer_def packaging_layer_def dest!: unpack_layers split: layer.splits)

lemma steps_layers:
  fixes R :: "dyn_source \<times> 'k locator \<Rightarrow> dyn_source \<times> 'k locator \<Rightarrow> bool"
  assumes "\<And>p q. R p q \<Longrightarrow> \<exists>l. P l \<and> locator_layers (snd q) = locator_layers (snd p) @ [l]"
    and "(R ^^ n) p q"
  shows "\<exists>ls. length ls = n \<and> list_all P ls \<and> locator_layers (snd q) = locator_layers (snd p) @ ls"
  using assms(2)
proof (induction n arbitrary: q)
  case (Suc n)
  then obtain m where "(R ^^ n) p m" and "R m q" by auto
  with Suc.IH [of m] assms(1) [of m q] obtain ls l
    where "length ls = n" "list_all P ls" "locator_layers (snd m) = locator_layers (snd p) @ ls"
      and "P l" "locator_layers (snd q) = locator_layers (snd m) @ [l]" by auto
  then show ?case by (intro exI [of _ "ls @ [l]"]) simp
qed simp

section \<open>A find is at a peeled child\<close>

lemma descend_packaging_Some:
  assumes "descend_packaging ops w s spec d f = Inr (Some r)" and "claim_window s = Inr w"
  shows "\<exists>s' spec'. unpack ops (s, spec) (s', spec') \<and> f s' spec' (Suc d) = Inr (Some r)"
  using assms(1) unfolding descend_packaging_def or_try_Some_iff
proof (elim disjE conjE)
  assume "try_each (\<lambda>cd. if is_candidate (co_probe cd w) then
      res_bind (co_open cd s) (\<lambda>decoded. f decoded (locator_push spec (ContainerLayer (co_format cd))) (d + 1))
      else Inr None) (op_containers ops) = Inr (Some r)"
  then show ?thesis
    using unpack_container [OF assms(2)]
    by (fastforce dest!: try_each_Some simp: res_bind_Inr_iff split: if_splits)
next
  assume "try_each (\<lambda>ar. if is_candidate (ao_probe ar w) then
      res_bind (ao_open ar s) (\<lambda>contents. case contents of
          ArchiveStream inner \<Rightarrow> f inner (locator_push spec (ArchiveLayer None)) (d + 1)
        | ArchiveMembers members \<Rightarrow> try_each (\<lambda>(index, m).
            f (mem_source m) (locator_push spec (ArchiveLayer (Some (word_of_nat index)))) (d + 1))
            (enumerate 0 members))
      else Inr None) (op_archives ops) = Inr (Some r)"
  then obtain ar where ar: "ar \<in> set (op_archives ops)" "is_candidate (ao_probe ar w)"
    and c: "res_bind (ao_open ar s) (\<lambda>contents. case contents of
          ArchiveStream inner \<Rightarrow> f inner (locator_push spec (ArchiveLayer None)) (d + 1)
        | ArchiveMembers members \<Rightarrow> try_each (\<lambda>(index, m).
            f (mem_source m) (locator_push spec (ArchiveLayer (Some (word_of_nat index)))) (d + 1))
            (enumerate 0 members)) = Inr (Some r)"
    by (auto dest!: try_each_Some split: if_splits)
  from c obtain contents where open_: "ao_open ar s = Inr contents"
    and k: "(case contents of
          ArchiveStream inner \<Rightarrow> f inner (locator_push spec (ArchiveLayer None)) (d + 1)
        | ArchiveMembers members \<Rightarrow> try_each (\<lambda>(index, m).
            f (mem_source m) (locator_push spec (ArchiveLayer (Some (word_of_nat index)))) (d + 1))
            (enumerate 0 members)) = Inr (Some r)"
    by (auto simp: res_bind_Inr_iff)
  show ?thesis
  proof (cases contents)
    case (ArchiveStream inner)
    with k unpack_stream [OF assms(2) ar] open_ show ?thesis by auto
  next
    case (ArchiveMembers ms)
    with k obtain i where "i < length ms"
      and "f (mem_source (ms ! i)) (locator_push spec (ArchiveLayer (Some (word_of_nat i)))) (Suc d) = Inr (Some r)"
      by (auto dest!: try_each_Some simp: in_set_enumerate_eq)
    with unpack_member [OF assms(2) ar] open_ ArchiveMembers show ?thesis by blast
  qed
qed

lemma descend_volumes_Some:
  assumes "descend_volumes ops w s spec d f = Inr (Some r)" and "claim_window s = Inr w"
  shows "\<exists>s' spec'. peel ops creds (s, spec) (s', spec') \<and> f s' spec' (Suc d) = Inr (Some r)"
proof -
  from assms(1) obtain vsp vs i s' where "vsp \<in> set (op_volume_systems ops)"
    "is_candidate (vo_probe vsp w)" "vo_open vsp s = Inr vs" "i < length (vs_volumes vs)"
    "vs_open_volume vs i = Inr s'"
    "f s' (locator_push spec (VolumeLayer (vo_scheme vsp) (word_of_nat i) None)) (Suc d) = Inr (Some r)"
    by (auto simp: descend_volumes_def res_bind_Inr_iff dest!: try_each_Some split: if_splits)
  with peel_volume [OF assms(2)] show ?thesis by blast
qed

lemma signature_Some:
  assumes "try_each (signature_step w s spec d creds f) (op_encryption ops) = Inr (Some r)"
    and "claim_window s = Inr w"
  shows "\<exists>s' spec'. peel ops creds (s, spec) (s', spec') \<and> f s' spec' (Suc d) = Inr (Some r)"
proof -
  from assms(1) obtain enc layer s' where "enc \<in> set (op_encryption ops)"
    "is_candidate (eo_probe enc w)" "eo_open enc s = Inr layer" "el_open layer creds = Inr s'"
    "f s' (locator_push spec (EncryptionLayer (eo_scheme enc))) (Suc d) = Inr (Some r)"
    by (auto simp: signature_step_def res_bind_Inr_iff is_yes_candidate dest!: try_each_Some
        split: if_splits)
  with peel_encryption [OF assms(2)] show ?thesis by blast
qed

lemma attempt_Some:
  assumes "try_each (attempt_step s spec d creds f) (maybes w (op_encryption ops)) = Inr (Some r)"
    and "claim_window s = Inr w"
  shows "\<exists>s' spec'. peel ops creds (s, spec) (s', spec') \<and> f s' spec' (Suc d) = Inr (Some r)"
proof -
  from assms(1) obtain enc where enc: "enc \<in> set (op_encryption ops)" "eo_probe enc w = Maybe"
    and step: "attempt_step s spec d creds f enc = Inr (Some r)"
    by (auto simp: maybes_def dest!: try_each_Some)
  from step obtain layer where l: "eo_open enc s = Inr layer"
    by (auto simp: attempt_step_def res_bind_Inr_iff)
  with step obtain s' where "el_open layer creds = Inr s'"
    "f s' (locator_push spec (EncryptionLayer (eo_scheme enc))) (Suc d) = Inr (Some r)"
    by (cases "el_open layer creds") (simp_all add: attempt_step_def)
  with peel_encryption [OF assms(2) enc(1) _ l] enc(2) show ?thesis by fastforce
qed

section \<open>No find means that every peeled child was searched\<close>

lemma descend_packaging_None:
  assumes "descend_packaging ops w s spec d f = Inr None" and "claim_window s = Inr w"
    and "unpack ops (s, spec) (s', spec')"
  shows "f s' spec' (Suc d) = Inr None"
  using assms(3)
proof (cases rule: unpack.cases)
  case (unpack_container w0 cd)
  with assms(1,2) show ?thesis
    by (auto simp: descend_packaging_def or_try_None_iff try_each_None_iff dest!: bspec)
next
  case (unpack_stream w0 ar)
  with assms(1,2) show ?thesis
    by (auto simp: descend_packaging_def or_try_None_iff try_each_None_iff dest!: bspec [of "set (op_archives ops)" _ ar])
next
  case (unpack_member w0 ar ms i)
  with assms(1,2) have "\<forall>(index, m) \<in> set (enumerate 0 ms).
      f (mem_source m) (locator_push spec (ArchiveLayer (Some (word_of_nat index)))) (Suc d) = Inr None"
    by (auto simp: descend_packaging_def or_try_None_iff try_each_None_iff dest!: bspec [of "set (op_archives ops)" _ ar])
  with unpack_member show ?thesis by (auto simp: in_set_enumerate_eq)
qed

lemma ordered_descent_None:
  assumes "ordered_descent ops w s spec d creds f = Inr None" and "claim_window s = Inr w"
    and "peel ops creds (s, spec) (s', spec')"
  shows "f s' spec' (Suc d) = Inr None"
proof -
  note parts = assms(1) [unfolded ordered_descent_or_try or_try_None_iff]
  show ?thesis
    using assms(3)
  proof (cases rule: peel.cases)
    case peel_packaging
    with descend_packaging_None parts assms(2) show ?thesis by blast
  next
    case (peel_volume w0 vsp vs i)
    with parts assms(2) show ?thesis
      by (auto simp: descend_volumes_def try_each_None_iff dest!: bspec [of "set (op_volume_systems ops)" _ vsp]
          bspec [of "{0..<length (vs_volumes vs)}" _ i])
  next
    case (peel_encryption w0 enc layer)
    show ?thesis
    proof (cases "eo_probe enc w")
      case Maybe
      with peel_encryption assms(2) have "enc \<in> set (maybes w (op_encryption ops))"
        by (simp add: maybes_def)
      with parts peel_encryption assms(2) show ?thesis
        by (auto simp: try_each_None_iff attempt_step_def dest!: bspec)
    next
      case (Yes how)
      with parts peel_encryption assms(2) show ?thesis
        by (auto simp: try_each_None_iff signature_step_def dest!: bspec [of "set (op_encryption ops)" _ enc])
    qed (use peel_encryption assms(2) in simp)
  qed
qed

lemma ordered_descent_Some:
  assumes "ordered_descent ops w s spec d creds f = Inr (Some r)" and "claim_window s = Inr w"
  shows "descend_filesystems ops w s spec = Inr (Some r)
    \<or> (\<exists>s' spec'. peel ops creds (s, spec) (s', spec') \<and> f s' spec' (Suc d) = Inr (Some r))"
  using assms(1) unfolding ordered_descent_or_try or_try_Some_iff
  using descend_volumes_Some [OF _ assms(2)] signature_Some [OF _ assms(2)]
    attempt_Some [OF _ assms(2)] descend_packaging_Some [OF _ assms(2)] peel_packaging
  by metis

end
