(* ===== verification/Resolver_Lemmas.thy ===== *)
theory Resolver_Lemmas
  imports Peeling
begin

text \<open>
  The resolver from end to end, over the steps of \<open>Peeling\<close>: where a find comes from, what no find
  means, and which openers cannot change a result. Each lemma is an induction on the depth that is
  left.
\<close>

section \<open>Finds\<close>

definition claims_filesystem :: "'k openers \<Rightarrow> dyn_source \<Rightarrow> bool" where
  "claims_filesystem ops s =
     (case claim_window s of
        Inl e \<Rightarrow> False
      | Inr w \<Rightarrow> list_ex (\<lambda>p. is_candidate (fo_probe p w)) (op_filesystems ops))"

text \<open>A result is mounted: a registered prober claimed its source, the mounted filesystem is what
  that prober opened from it, and the locator ends in that filesystem's root.\<close>

definition mounted :: "'k openers \<Rightarrow> 'k resolved \<Rightarrow> bool" where
  "mounted ops r =
     (case claim_window (rs_source r) of
        Inl e \<Rightarrow> False
      | Inr w \<Rightarrow>
          list_ex (\<lambda>p. is_candidate (fo_probe p w) \<and> fo_open p (rs_source r) = Inr (rs_fs r)
            \<and> rs_spec r = locator_push (rs_source_spec r) (FsLayer (fo_kind p) (PathAddr [])))
            (op_filesystems ops))"

lemma descend_filesystems_Some:
  assumes "descend_filesystems ops w s spec = Inr (Some r)" and "claim_window s = Inr w"
  shows "mounted ops r \<and> rs_source r = s \<and> rs_source_spec r = spec"
proof -
  from assms(1) obtain p fs where "p \<in> set (op_filesystems ops)" "is_candidate (fo_probe p w)"
    "fo_open p s = Inr fs"
    "r = \<lparr>rs_fs = fs, rs_spec = locator_push spec (FsLayer (fo_kind p) (PathAddr [])),
          rs_source = s, rs_source_spec = spec\<rparr>"
    by (auto simp: descend_filesystems_def res_bind_Inr_iff Let_def dest!: try_each_Some
        split: if_splits)
  with assms(2) show ?thesis by (auto simp: mounted_def list_ex_iff)
qed

lemma descend_filesystems_None:
  "descend_filesystems ops w s spec = Inr None \<Longrightarrow> claim_window s = Inr w \<Longrightarrow> \<not> claims_filesystem ops s"
  by (auto simp: descend_filesystems_def try_each_None_iff claims_filesystem_def list_ex_iff
      res_bind_Inr_iff Let_def split: if_splits)

lemma open_Some_path:
  assumes "open_with_credentials ops creds source spec depth = Inr (Some r)"
  shows "\<exists>n. n + depth \<le> max_depth
    \<and> (peel ops creds ^^ n) (source, spec) (rs_source r, rs_source_spec r) \<and> mounted ops r"
  using assms
proof (induction "max_depth + 1 - depth" arbitrary: source spec depth rule: less_induct)
  case less
  from less.prems obtain w where d: "depth \<le> max_depth" and w: "claim_window source = Inr w"
    and desc: "ordered_descent ops w source spec depth creds (open_with_credentials ops creds)
        = Inr (Some r)"
    by (auto simp: open_eq_descent [of ops creds source] res_bind_Inr_iff split: if_splits)
  from ordered_descent_Some [OF desc w] show ?case
  proof (elim disjE exE conjE)
    assume "descend_filesystems ops w source spec = Inr (Some r)"
    with descend_filesystems_Some w d show ?thesis by (intro exI [of _ 0]) fastforce
  next
    fix s' spec' assume p: "peel ops creds (source, spec) (s', spec')"
      and rec: "open_with_credentials ops creds s' spec' (Suc depth) = Inr (Some r)"
    have "max_depth + 1 - Suc depth < max_depth + 1 - depth" using d by simp
    from less.hyps [OF this rec] obtain n where "n + Suc depth \<le> max_depth" "mounted ops r"
      "(peel ops creds ^^ n) (s', spec') (rs_source r, rs_source_spec r)" by blast
    with p show ?thesis by (intro exI [of _ "Suc n"]) (auto simp del: relpowp.simps intro: relpowp_Suc_I2)
  qed
qed

text \<open>Nothing found means that no filesystem was there to be found.\<close>

lemma open_None_complete:
  assumes "open_with_credentials ops creds source spec depth = Inr None"
    and "(peel ops creds ^^ n) (source, spec) (s', spec')" and "n + depth \<le> max_depth"
  shows "\<not> claims_filesystem ops s'"
  using assms
proof (induction n arbitrary: source spec depth)
  case 0
  then obtain w where w: "claim_window source = Inr w"
    and desc: "ordered_descent ops w source spec depth creds (open_with_credentials ops creds) = Inr None"
    by (auto simp: open_eq_descent [of ops creds source] res_bind_Inr_iff)
  from desc have "descend_filesystems ops w source spec = Inr None"
    by (simp add: ordered_descent_or_try or_try_None_iff)
  with descend_filesystems_None w 0 show ?case by auto
next
  case (Suc n)
  from Suc.prems(2) obtain s1 spec1 where p: "peel ops creds (source, spec) (s1, spec1)"
    and rest: "(peel ops creds ^^ n) (s1, spec1) (s', spec')"
    by (metis relpowp_Suc_E2 prod.exhaust)
  from Suc.prems obtain w where w: "claim_window source = Inr w"
    and desc: "ordered_descent ops w source spec depth creds (open_with_credentials ops creds) = Inr None"
    by (auto simp: open_eq_descent [of ops creds source] res_bind_Inr_iff)
  from Suc.IH [OF ordered_descent_None [OF desc w p] rest] Suc.prems(3) show ?case by simp
qed

section \<open>Openers that change nothing\<close>

text \<open>A credential-attempt opener that no source ever satisfies: it never gives \<open>Yes\<close>, its layer
  can always be constructed, and decrypting with these credentials always fails.\<close>

definition hopeless_attempt :: "credential_source \<Rightarrow> encryption_open \<Rightarrow> bool" where
  "hopeless_attempt creds v \<longleftrightarrow>
     (\<forall>w. \<not> is_yes (eo_probe v w))
     \<and> (\<forall>s. \<exists>layer e. eo_open v s = Inr layer \<and> el_open layer creds = Inl e)"

definition add_encryption :: "'k openers \<Rightarrow> nat \<Rightarrow> encryption_open \<Rightarrow> 'k openers" where
  "add_encryption ops i v =
     ops\<lparr>op_encryption := take i (op_encryption ops) @ v # drop i (op_encryption ops)\<rparr>"

lemma try_each_insert:
  "f v = Inr None \<Longrightarrow> try_each f (xs @ v # ys) = try_each f (xs @ ys)"
  by (simp add: try_each_append)

lemma signature_step_hopeless:
  "hopeless_attempt creds v \<Longrightarrow> signature_step w s spec d creds f v = Inr None"
  by (simp add: hopeless_attempt_def signature_step_def)

lemma attempt_step_hopeless:
  "hopeless_attempt creds v \<Longrightarrow> attempt_step s spec d creds f v = Inr None"
proof -
  assume "hopeless_attempt creds v"
  then obtain layer e where "eo_open v s = Inr layer" "el_open layer creds = Inl e"
    unfolding hopeless_attempt_def by blast
  then show ?thesis by (simp add: attempt_step_def)
qed

lemma ordered_descent_add_encryption:
  assumes "hopeless_attempt creds v"
  shows "ordered_descent (add_encryption ops i v) w s spec d creds f
    = ordered_descent ops w s spec d creds f"
proof -
  define xs ys where "xs = take i (op_encryption ops)" and "ys = drop i (op_encryption ops)"
  have old: "op_encryption ops = xs @ ys" and new: "op_encryption (add_encryption ops i v) = xs @ v # ys"
    by (simp_all add: xs_def ys_def add_encryption_def)
  have "try_each (signature_step w s spec d creds f) (xs @ v # ys)
      = try_each (signature_step w s spec d creds f) (xs @ ys)"
    by (simp add: try_each_insert signature_step_hopeless [OF assms])
  moreover have "try_each (attempt_step s spec d creds f) (maybes w (xs @ v # ys))
      = try_each (attempt_step s spec d creds f) (maybes w (xs @ ys))"
    by (simp add: maybes_def try_each_insert attempt_step_hopeless [OF assms])
  moreover have "descend_filesystems (add_encryption ops i v) w s spec = descend_filesystems ops w s spec"
    "descend_volumes (add_encryption ops i v) w s spec d f = descend_volumes ops w s spec d f"
    "descend_packaging (add_encryption ops i v) w s spec d f = descend_packaging ops w s spec d f"
    by (simp_all add: descend_filesystems_def descend_volumes_def
        descend_packaging_def add_encryption_def)
  ultimately show ?thesis by (simp add: ordered_descent_or_try old new)
qed

lemma ordered_descent_cong:
  assumes "\<And>s' spec'. f s' spec' (Suc d) = g s' spec' (Suc d)"
  shows "ordered_descent ops w s spec d creds f = ordered_descent ops w s spec d creds g"
proof -
  have eq: "f s' spec' (d + 1) = g s' spec' (d + 1)" for s' spec' using assms by simp
  show ?thesis
    unfolding ordered_descent_def signature_step_def [abs_def] attempt_step_def [abs_def]
      descend_volumes_def descend_packaging_def eq ..
qed

lemma open_add_encryption:
  assumes "hopeless_attempt creds v"
  shows "open_with_credentials (add_encryption ops i v) creds source spec depth
    = open_with_credentials ops creds source spec depth"
proof (induction "max_depth + 1 - depth" arbitrary: source spec depth rule: less_induct)
  case less
  show ?case
  proof (cases "depth > max_depth")
    case False
    then have "max_depth + 1 - Suc depth < max_depth + 1 - depth" by simp
    from less [OF this] have "ordered_descent ops w source spec depth creds
          (open_with_credentials (add_encryption ops i v) creds)
        = ordered_descent ops w source spec depth creds (open_with_credentials ops creds)" for w
      by (intro ordered_descent_cong)
    then show ?thesis
      by (simp add: open_eq_descent [of _ creds source] ordered_descent_add_encryption [OF assms])
  qed (simp add: open_eq_descent)
qed

section \<open>Packaging only\<close>

lemma resolve_total:
  assumes "resolve_to_source ops source spec depth = Inr found" and "depth \<le> max_depth"
  shows "\<exists>r. found = Some r"
  using assms
  by (cases found) (auto simp: resolve_eq [of ops source] res_bind_Inr_iff or_try_None_iff)

lemma resolve_Some_path:
  assumes "resolve_to_source ops source spec depth = Inr (Some r)"
  shows "\<exists>n. n + depth \<le> max_depth
    \<and> (unpack ops ^^ n) (source, spec) (rsrc_source r, rsrc_spec r)
    \<and> (n + depth = max_depth \<or> (\<nexists>q. unpack ops (rsrc_source r, rsrc_spec r) q))"
  using assms
proof (induction "max_depth + 1 - depth" arbitrary: source spec depth rule: less_induct)
  case less
  from less.prems obtain w where d: "depth \<le> max_depth" and w: "claim_window source = Inr w"
    and desc: "or_try (descend_packaging ops w source spec depth (resolve_to_source ops))
        (Inr (Some \<lparr>rsrc_source = source, rsrc_spec = spec\<rparr>)) = Inr (Some r)"
    by (auto simp: resolve_eq [of ops source] res_bind_Inr_iff split: if_splits)
  from desc consider
    (found) "descend_packaging ops w source spec depth (resolve_to_source ops) = Inr (Some r)"
    | (terminal) "descend_packaging ops w source spec depth (resolve_to_source ops) = Inr None"
        "rsrc_source r = source" "rsrc_spec r = spec"
    by (auto simp: or_try_Some_iff)
  then show ?case
  proof cases
    case found
    from descend_packaging_Some [OF found w] obtain s' spec'
      where p: "unpack ops (source, spec) (s', spec')"
        and rec: "resolve_to_source ops s' spec' (Suc depth) = Inr (Some r)" by blast
    have "max_depth + 1 - Suc depth < max_depth + 1 - depth" using d by simp
    from less.hyps [OF this rec] obtain n where "n + Suc depth \<le> max_depth"
      "(unpack ops ^^ n) (s', spec') (rsrc_source r, rsrc_spec r)"
      "n + Suc depth = max_depth \<or> (\<nexists>q. unpack ops (rsrc_source r, rsrc_spec r) q)" by blast
    with p show ?thesis
      by (intro exI [of _ "Suc n"]) (auto simp del: relpowp.simps intro: relpowp_Suc_I2)
  next
    case terminal
    have "\<nexists>q. unpack ops (source, spec) q" if "depth < max_depth"
    proof
      assume "\<exists>q. unpack ops (source, spec) q"
      then obtain s' spec' where "unpack ops (source, spec) (s', spec')" by auto
      from descend_packaging_None [OF terminal(1) w this]
      have "resolve_to_source ops s' spec' (Suc depth) = Inr None" .
      with resolve_total that show False by fastforce
    qed
    with terminal d show ?thesis by (intro exI [of _ 0]) auto
  qed
qed

lemma self_nested:
  assumes "claim_window s = Inr w" and "op_containers ops = [cd]" and "is_candidate (co_probe cd w)"
    and "co_open cd s = Inr s" and "op_archives ops = []" and "depth \<le> max_depth"
  shows "\<exists>r. resolve_to_source ops s spec depth = Inr (Some r) \<and> rsrc_source r = s
      \<and> locator_depth (rsrc_spec r) = locator_depth spec + (max_depth - depth)"
  using assms(6)
proof (induction "max_depth - depth" arbitrary: spec depth)
  case 0
  then have "resolve_to_source ops s (locator_push spec (ContainerLayer (co_format cd))) (Suc depth)
      = Inr None" by (simp add: resolve_eq)
  with 0 assms(1-5) show ?case
    by (simp add: resolve_eq [of ops s spec] descend_packaging_def)
next
  case (Suc k)
  then have "k = max_depth - Suc depth" "Suc depth \<le> max_depth" by simp_all
  from Suc(1) [OF this, of "locator_push spec (ContainerLayer (co_format cd))"]
  show ?case
    using Suc.prems Suc(2) assms(1-5) by (auto simp: resolve_eq [of ops s spec] descend_packaging_def)
qed

end
