(* ===== verification/Faults.thy ===== *)
theory Faults
  imports Resolver_Lemmas
begin

text \<open>
  Where an error of the resolver comes from. \<open>layer_fault\<close> lists what can fail at one source: reading
  its sniff window, and opening it by an opener that claimed it. A decryption counts only for a
  scheme that recognised its signature. The lemmas show that a descent fails with a fault of its
  source or with an error of a peeled child.
\<close>

inductive layer_fault :: "'k openers \<Rightarrow> credential_source \<Rightarrow> dyn_source \<Rightarrow> vfs_error \<Rightarrow> bool"
  for ops :: "'k openers" and creds :: credential_source and s :: dyn_source and e :: vfs_error where
  fault_sniff: "claim_window s = Inl e \<Longrightarrow> layer_fault ops creds s e"
| fault_filesystem:
    "claim_window s = Inr w \<Longrightarrow> p \<in> set (op_filesystems ops) \<Longrightarrow> is_candidate (fo_probe p w) \<Longrightarrow>
     fo_open p s = Inl e \<Longrightarrow> layer_fault ops creds s e"
| fault_volume_system:
    "claim_window s = Inr w \<Longrightarrow> v \<in> set (op_volume_systems ops) \<Longrightarrow> is_candidate (vo_probe v w) \<Longrightarrow>
     vo_open v s = Inl e \<Longrightarrow> layer_fault ops creds s e"
| fault_volume:
    "claim_window s = Inr w \<Longrightarrow> v \<in> set (op_volume_systems ops) \<Longrightarrow> is_candidate (vo_probe v w) \<Longrightarrow>
     vo_open v s = Inr vs \<Longrightarrow> i < length (vs_volumes vs) \<Longrightarrow> vs_open_volume vs i = Inl e \<Longrightarrow>
     layer_fault ops creds s e"
| fault_scheme:
    "claim_window s = Inr w \<Longrightarrow> enc \<in> set (op_encryption ops) \<Longrightarrow> is_candidate (eo_probe enc w) \<Longrightarrow>
     eo_open enc s = Inl e \<Longrightarrow> layer_fault ops creds s e"
| fault_decryption:
    "claim_window s = Inr w \<Longrightarrow> enc \<in> set (op_encryption ops) \<Longrightarrow> is_yes (eo_probe enc w) \<Longrightarrow>
     eo_open enc s = Inr layer \<Longrightarrow> el_open layer creds = Inl e \<Longrightarrow> layer_fault ops creds s e"
| fault_container:
    "claim_window s = Inr w \<Longrightarrow> cd \<in> set (op_containers ops) \<Longrightarrow> is_candidate (co_probe cd w) \<Longrightarrow>
     co_open cd s = Inl e \<Longrightarrow> layer_fault ops creds s e"
| fault_archive:
    "claim_window s = Inr w \<Longrightarrow> ar \<in> set (op_archives ops) \<Longrightarrow> is_candidate (ao_probe ar w) \<Longrightarrow>
     ao_open ar s = Inl e \<Longrightarrow> layer_fault ops creds s e"

lemma try_each_Inl: "try_each f xs = Inl e \<Longrightarrow> \<exists>x \<in> set xs. f x = Inl e"
  by (induction xs) (auto simp: res_bind_Inl_iff split: option.splits)

lemma or_try_Inl_iff: "or_try r k = Inl e \<longleftrightarrow> r = Inl e \<or> (r = Inr None \<and> k = Inl e)"
  by (cases r) (auto simp: or_try_def split: option.splits)

section \<open>One descent\<close>

lemma descend_filesystems_Inl:
  assumes "descend_filesystems ops w s spec = Inl e" and "claim_window s = Inr w"
  shows "layer_fault ops creds s e"
  using assms fault_filesystem [OF assms(2)]
  by (auto simp: descend_filesystems_def res_bind_Inl_iff Let_def dest!: try_each_Inl split: if_splits)

lemma descend_volumes_Inl:
  assumes "descend_volumes ops w s spec d f = Inl e" and "claim_window s = Inr w"
  shows "layer_fault ops creds s e
    \<or> (\<exists>s' spec'. peel ops creds (s, spec) (s', spec') \<and> f s' spec' (Suc d) = Inl e)"
proof -
  from assms(1) obtain v where v: "v \<in> set (op_volume_systems ops)" "is_candidate (vo_probe v w)"
    and b: "res_bind (vo_open v s) (\<lambda>vs. try_each (\<lambda>i. res_bind (vs_open_volume vs i) (\<lambda>sub.
        f sub (locator_push spec (VolumeLayer (vo_scheme v) (word_of_nat i) None)) (Suc d)))
        [0..<length (vs_volumes vs)]) = Inl e"
    by (auto simp: descend_volumes_def dest!: try_each_Inl split: if_splits)
  show ?thesis
  proof (cases "vo_open v s")
    case (Inl e')
    with b fault_volume_system [OF assms(2) v] show ?thesis by simp
  next
    case (Inr vs)
    with b obtain i where i: "i < length (vs_volumes vs)"
      and r: "res_bind (vs_open_volume vs i) (\<lambda>sub.
        f sub (locator_push spec (VolumeLayer (vo_scheme v) (word_of_nat i) None)) (Suc d)) = Inl e"
      by (auto dest!: try_each_Inl)
    with fault_volume [OF assms(2) v Inr i] peel_volume [OF assms(2) v Inr i] show ?thesis
      by (auto simp: res_bind_Inl_iff)
  qed
qed

lemma signature_Inl:
  assumes "try_each (signature_step w s spec d creds f) (op_encryption ops) = Inl e"
    and "claim_window s = Inr w"
  shows "layer_fault ops creds s e
    \<or> (\<exists>s' spec'. peel ops creds (s, spec) (s', spec') \<and> f s' spec' (Suc d) = Inl e)"
proof -
  from assms(1) obtain enc where enc: "enc \<in> set (op_encryption ops)" and yes: "is_yes (eo_probe enc w)"
    and b: "res_bind (eo_open enc s) (\<lambda>layer. res_bind (el_open layer creds) (\<lambda>dec.
        f dec (locator_push spec (EncryptionLayer (eo_scheme enc))) (Suc d))) = Inl e"
    by (auto simp: signature_step_def dest!: try_each_Inl split: if_splits)
  note claim = assms(2) enc is_yes_candidate [OF yes]
  from b show ?thesis
    using fault_scheme [OF claim] fault_decryption [OF assms(2) enc yes] peel_encryption [OF claim]
    by (auto simp: res_bind_Inl_iff)
qed

lemma attempt_Inl:
  assumes "try_each (attempt_step s spec d creds f) (maybes w (op_encryption ops)) = Inl e"
    and "claim_window s = Inr w"
  shows "layer_fault ops creds s e
    \<or> (\<exists>s' spec'. peel ops creds (s, spec) (s', spec') \<and> f s' spec' (Suc d) = Inl e)"
proof -
  from assms(1) obtain enc where enc: "enc \<in> set (op_encryption ops)" "is_candidate (eo_probe enc w)"
    and step: "attempt_step s spec d creds f enc = Inl e"
    by (auto simp: maybes_def dest!: try_each_Inl)
  note claim = assms(2) enc
  show ?thesis
  proof (cases "eo_open enc s")
    case (Inl e')
    with step fault_scheme [OF claim] show ?thesis by (simp add: attempt_step_def)
  next
    case (Inr layer)
    with step peel_encryption [OF claim Inr] show ?thesis
      by (auto simp: attempt_step_def split: sum.splits)
  qed
qed

lemma archive_contents_Inl:
  assumes "(case contents of
        ArchiveStream inner \<Rightarrow> f inner (locator_push spec (ArchiveLayer None)) (d + 1)
      | ArchiveMembers members \<Rightarrow> try_each (\<lambda>(index, m).
          f (mem_source m) (locator_push spec (ArchiveLayer (Some (word_of_nat index)))) (d + 1))
          (enumerate 0 members)) = Inl e"
    and "claim_window s = Inr w" and "ar \<in> set (op_archives ops)" and "is_candidate (ao_probe ar w)"
    and "ao_open ar s = Inr contents"
  shows "\<exists>s' spec'. peel ops creds (s, spec) (s', spec') \<and> f s' spec' (Suc d) = Inl e"
proof (cases contents)
  case (ArchiveStream inner)
  with assms(1) have "f inner (locator_push spec (ArchiveLayer None)) (Suc d) = Inl e" by simp
  moreover from ArchiveStream assms(5) have "ao_open ar s = Inr (ArchiveStream inner)" by simp
  ultimately show ?thesis using peel_packaging [OF unpack_stream [OF assms(2-4)]] by blast
next
  case (ArchiveMembers ms)
  with assms(1) obtain i where "i < length ms"
    and "f (mem_source (ms ! i)) (locator_push spec (ArchiveLayer (Some (word_of_nat i)))) (Suc d) = Inl e"
    by (auto dest!: try_each_Inl simp: in_set_enumerate_eq)
  with peel_packaging [OF unpack_member [OF assms(2-4)]] assms(5) ArchiveMembers show ?thesis by blast
qed

lemma descend_packaging_Inl:
  assumes "descend_packaging ops w s spec d f = Inl e" and "claim_window s = Inr w"
  shows "layer_fault ops creds s e
    \<or> (\<exists>s' spec'. peel ops creds (s, spec) (s', spec') \<and> f s' spec' (Suc d) = Inl e)"
  using assms(1) unfolding descend_packaging_def or_try_Inl_iff
proof (elim disjE conjE)
  assume "try_each (\<lambda>cd. if is_candidate (co_probe cd w) then
      res_bind (co_open cd s) (\<lambda>decoded. f decoded (locator_push spec (ContainerLayer (co_format cd))) (d + 1))
      else Inr None) (op_containers ops) = Inl e"
  then obtain cd where cd: "cd \<in> set (op_containers ops)" "is_candidate (co_probe cd w)"
    and b: "res_bind (co_open cd s) (\<lambda>decoded.
      f decoded (locator_push spec (ContainerLayer (co_format cd))) (Suc d)) = Inl e"
    by (auto dest!: try_each_Inl split: if_splits)
  from b show ?thesis
    using fault_container [OF assms(2) cd] peel_packaging [OF unpack_container [OF assms(2) cd]]
    by (auto simp: res_bind_Inl_iff)
next
  assume "try_each (\<lambda>ar. if is_candidate (ao_probe ar w) then
      res_bind (ao_open ar s) (\<lambda>contents. case contents of
          ArchiveStream inner \<Rightarrow> f inner (locator_push spec (ArchiveLayer None)) (d + 1)
        | ArchiveMembers members \<Rightarrow> try_each (\<lambda>(index, m).
            f (mem_source m) (locator_push spec (ArchiveLayer (Some (word_of_nat index)))) (d + 1))
            (enumerate 0 members))
      else Inr None) (op_archives ops) = Inl e"
  then obtain ar where ar: "ar \<in> set (op_archives ops)" "is_candidate (ao_probe ar w)"
    and b: "res_bind (ao_open ar s) (\<lambda>contents. case contents of
          ArchiveStream inner \<Rightarrow> f inner (locator_push spec (ArchiveLayer None)) (d + 1)
        | ArchiveMembers members \<Rightarrow> try_each (\<lambda>(index, m).
            f (mem_source m) (locator_push spec (ArchiveLayer (Some (word_of_nat index)))) (d + 1))
            (enumerate 0 members)) = Inl e"
    by (auto dest!: try_each_Inl split: if_splits)
  from b [unfolded res_bind_Inl_iff] show ?thesis
    using fault_archive [OF assms(2) ar] archive_contents_Inl [OF _ assms(2) ar] by blast
qed

lemma ordered_descent_Inl:
  assumes "ordered_descent ops w s spec d creds f = Inl e" and "claim_window s = Inr w"
  shows "layer_fault ops creds s e
    \<or> (\<exists>s' spec'. peel ops creds (s, spec) (s', spec') \<and> f s' spec' (Suc d) = Inl e)"
  using assms(1) unfolding ordered_descent_or_try or_try_Inl_iff
  using descend_filesystems_Inl [OF _ assms(2)] descend_volumes_Inl [OF _ assms(2)]
    signature_Inl [OF _ assms(2)] attempt_Inl [OF _ assms(2)] descend_packaging_Inl [OF _ assms(2)]
  by metis

section \<open>The resolver\<close>

lemma open_Inl_fault:
  assumes "open_with_credentials ops creds source spec depth = Inl e"
  shows "\<exists>n s' spec'. n + depth \<le> max_depth \<and> (peel ops creds ^^ n) (source, spec) (s', spec')
    \<and> layer_fault ops creds s' e"
  using assms
proof (induction "max_depth + 1 - depth" arbitrary: source spec depth rule: less_induct)
  case less
  from less.prems have d: "depth \<le> max_depth"
    by (auto simp: open_eq_descent [of ops creds source] split: if_splits)
  show ?case
  proof (cases "claim_window source")
    case (Inl e')
    with less.prems d have "e' = e" by (simp add: open_eq_descent [of ops creds source])
    with Inl d show ?thesis by (intro exI [of _ 0]) (auto intro: fault_sniff)
  next
    case (Inr w)
    with less.prems d
    have "ordered_descent ops w source spec depth creds (open_with_credentials ops creds) = Inl e"
      by (simp add: open_eq_descent [of ops creds source])
    from ordered_descent_Inl [OF this Inr] show ?thesis
    proof (elim disjE exE conjE)
      assume "layer_fault ops creds source e"
      with d show ?thesis by (intro exI [of _ 0]) auto
    next
      fix s' spec' assume p: "peel ops creds (source, spec) (s', spec')"
        and rec: "open_with_credentials ops creds s' spec' (Suc depth) = Inl e"
      have "max_depth + 1 - Suc depth < max_depth + 1 - depth" using d by simp
      from less.hyps [OF this rec] obtain n t spect where "n + Suc depth \<le> max_depth"
        "layer_fault ops creds t e" "(peel ops creds ^^ n) (s', spec') (t, spect)" by blast
      with p show ?thesis
        by (intro exI [of _ "Suc n"]) (auto simp del: relpowp.simps intro: relpowp_Suc_I2)
    qed
  qed
qed

end
