(* ===== verification/Sniffing.thy ===== *)
theory Sniffing
  imports Resolver_Spec Adapters
begin

text \<open>
  What a prober sees of a source that meets the byte contract: the window's head is a prefix of the
  first \<open>SNIFF_CAP\<close> bytes, its tail of the last \<open>TAIL_CAP\<close> bytes, and neither is empty unless the source
  is. When the source fills buffers of \<open>SNIFF_CAP\<close> bytes they are those bytes.
\<close>

lemma unat_head_cap: "unat (head_cap n) = max 1 (min (unat n) 131072)"
  by (simp add: head_cap_def sniff_cap_def max_def min_def word_le_nat_alt)

lemma unat_tail_cap: "unat (tail_cap n) = min (unat n) 4096"
  by (simp add: tail_cap_def tail_cap_max_def min_def word_le_nat_alt)

lemma unat_tail_start: "unat (n - tail_cap n) = unat n - 4096"
proof -
  have "tail_cap n \<le> n" by (simp add: tail_cap_def)
  then show ?thesis by (simp add: unat_sub unat_tail_cap)
qed

lemma prefix_or_empty_part:
  "n \<le> read_count content off (length buf) \<Longrightarrow>
     prefix_or_empty n (read_part content off n buf) = take n (drop off content)"
  by (subst prefix_or_empty_le) (auto simp: read_part_prefix read_count_def)

context byte_source
begin

lemma sniff_reads:
  assumes "read_sniff_buffers src = Inr bufs"
  obtains n head tn tail where "src_read_at src 0 (replicate (unat (head_cap (src_len src))) 0) = (Inr n, head)"
    and "src_read_at src (src_len src - tail_cap (src_len src))
          (replicate (unat (tail_cap (src_len src))) 0) = (Inr tn, tail)"
    and "window_of_buffers bufs = sniff_window_with_tail 0 (take n content) (src_len src)
          (take tn (drop (length content - 4096) content))"
    and "n \<le> min 131072 (length content)" and "n = 0 \<longrightarrow> content = []"
    and "tn \<le> min 4096 (length content)" and "tn = 0 \<longrightarrow> content = []"
proof -
  from assms obtain n head tn tail
    where h: "src_read_at src 0 (replicate (unat (head_cap (src_len src))) 0) = (Inr n, head)"
      and t: "src_read_at src (src_len src - tail_cap (src_len src))
            (replicate (unat (tail_cap (src_len src))) 0) = (Inr tn, tail)"
      and bufs: "bufs = (head, n, tail, tn, src_len src)"
    by (auto simp: read_sniff_buffers_def Let_def split: prod.splits sum.splits)
  note h' = read_chunk [OF h] and t' = read_chunk [OF t, unfolded unat_tail_start, folded content_len]
  have "prefix_or_empty n head = take n content"
    using h' prefix_or_empty_part [of n content 0 "replicate (unat (head_cap (src_len src))) 0"]
    by (simp add: read_allowed_def)
  moreover have "prefix_or_empty tn tail = take tn (drop (length content - 4096) content)"
    using t' prefix_or_empty_part [of tn content "length content - 4096"
        "replicate (unat (tail_cap (src_len src))) 0"]
    by (simp add: read_allowed_def)
  moreover have "n \<le> min 131072 (length content)" "n = 0 \<longrightarrow> content = []"
    using h' by (auto simp: read_allowed_def read_count_def unat_head_cap min_def max_def split: if_splits)
  moreover have "tn \<le> min 4096 (length content)" "tn = 0 \<longrightarrow> content = []"
  proof -
    from t' have "read_allowed content (length content - 4096) (min (length content) 4096) tn"
      by (simp add: unat_tail_cap content_len)
    then have le: "tn \<le> min (min (length content) 4096) (length content - (length content - 4096))"
      and zero: "tn = 0 \<longrightarrow> min (min (length content) 4096) (length content - (length content - 4096)) = 0"
      unfolding read_allowed_def read_count_def by blast+
    from le show "tn \<le> min 4096 (length content)" by linarith
    from zero have "tn = 0 \<longrightarrow> length content = 0" by linarith
    then show "tn = 0 \<longrightarrow> content = []" by simp
  qed
  ultimately show ?thesis using that [OF h t] by (simp add: bufs)
qed

end

context filling_source
begin

lemma sniffed:
  assumes "read_sniff_buffers src = Inr bufs" and "131072 \<le> lim"
  shows "window_of_buffers bufs = sniff_window_with_tail 0 (take 131072 content) (src_len src)
    (drop (length content - 4096) content)"
proof -
  obtain n head tn tail
    where h: "src_read_at src 0 (replicate (unat (head_cap (src_len src))) 0) = (Inr n, head)"
      and t: "src_read_at src (src_len src - tail_cap (src_len src))
            (replicate (unat (tail_cap (src_len src))) 0) = (Inr tn, tail)"
      and w: "window_of_buffers bufs = sniff_window_with_tail 0 (take n content) (src_len src)
          (take tn (drop (length content - 4096) content))"
      and n: "n \<le> min 131072 (length content)"
    by (rule sniff_reads [OF assms(1)])
  have "unat (head_cap (src_len src)) \<le> lim" using assms(2) by (simp add: unat_head_cap)
  with read_full [OF h] have "min (max 1 (min (length content) 131072)) (length content) \<le> n"
    by (simp add: read_count_def unat_head_cap content_len)
  then have "min 131072 (length content) \<le> n" by linarith
  moreover have "n \<le> min 131072 (length content)" using n .
  ultimately have "n = min 131072 (length content)" by linarith
  then have "take n content = take 131072 content" by (simp add: take_all_iff min_def)
  moreover have "take tn (drop (length content - 4096) content) = drop (length content - 4096) content"
  proof -
    have "min (length content) 4096 \<le> lim" using assms(2) by linarith
    with read_full [OF t]
    have "min (min (length content) 4096) (length content - (length content - 4096)) \<le> tn"
      by (simp add: read_count_def unat_tail_cap unat_tail_start content_len)
    then have "length content - (length content - 4096) \<le> tn" by linarith
    then show ?thesis by simp
  qed
  ultimately show ?thesis by (simp add: w)
qed

lemma claimed:
  "claim_window src = Inr w \<Longrightarrow> 131072 \<le> lim \<Longrightarrow>
     w = sniff_window_with_tail 0 (take 131072 content) (src_len src)
       (drop (length content - 4096) content)"
  by (auto simp: claim_window_def res_bind_Inr_iff dest!: sniffed)

end

section \<open>A source in memory\<close>

definition ram_source :: "bytes \<Rightarrow> image_source" where
  "ram_source bs =
     default_source (word_of_nat (length bs))
       (\<lambda>off buf. (Inr (read_count bs (unat off) (length buf)), read_into bs (unat off) buf))"

lemma ram_source_len [simp]: "src_len (ram_source bs) = word_of_nat (length bs)"
  by (simp add: ram_source_def)

lemma ram_filling_source:
  assumes "length bs < 2 ^ 64"
  shows "filling_source (ram_source bs) bs lim"
  using assms by unfold_locales (auto simp: ram_source_def unat_of_nat read_part_all)

lemma ram_claim_window:
  assumes "length bs \<le> 4096"
  shows "claim_window (ram_source bs) = Inr (sniff_window_with_tail 0 bs (word_of_nat (length bs)) bs)"
proof -
  have "\<exists>w. claim_window (ram_source bs) = Inr w"
    by (simp add: claim_window_def read_sniff_buffers_def ram_source_def Let_def)
  then obtain w where w: "claim_window (ram_source bs) = Inr w" ..
  have "filling_source (ram_source bs) bs 131072" using assms by (intro ram_filling_source) simp
  from filling_source.claimed [OF this w] w assms show ?thesis by (simp add: ram_source_def)
qed

end
