(* ===== verification/Resolver_Properties.thy ===== *)
theory Resolver_Properties
  imports Faults Sniffing
begin

text \<open>
  The properties of the resolver, with a small instance at which their hypotheses hold: a source in
  memory, a filesystem prober for the bytes \<open>NT\<close>, a container prober for the byte \<open>C\<close> that
  unwraps to such a source, and encryption openers of either kind.
\<close>

section \<open>An instance\<close>

definition demo_fs :: "nat file_system" where
  "demo_fs =
     \<lparr>fs_kind = 0, fs_root = OpaqueId 5, fs_sector_sizes = \<lparr>ss_logical = 512, ss_physical = 512,
        ss_cluster_or_block = 4096\<rparr>, fs_timestamp_zone = Utc, fs_volume_label = None,
      fs_read_dir = (\<lambda>_. Inr stream_empty), fs_extents = (\<lambda>_ _. Inr stream_empty),
      fs_lookup = (\<lambda>_ _. Inr None), fs_meta_of = (\<lambda>_. Inl (Unsupported ''demo'' ''meta'')),
      fs_read_at = (\<lambda>_ _ _ buf. (Inr 0, buf)), fs_read_link = (\<lambda>_ _. Inr []),
      fs_data_streams = (\<lambda>_. Inr []), fs_hardlinks = (\<lambda>_. Inr []), fs_deleted = Inr stream_empty,
      fs_deleted_nodes = Inr stream_empty, fs_unallocated = Inr stream_empty,
      fs_slack = (\<lambda>_ _. Inr None)\<rparr>"

definition demo_prober :: "nat file_system_open" where
  "demo_prober =
     \<lparr>fo_kind = 0,
      fo_probe = (\<lambda>w. if has_magic w 0 [78, 84] then Yes ''NT'' else No),
      fo_open = (\<lambda>s. if src_len s = 2 then Inl (Bootstrap ''ntfs'' ''no MFT'') else Inr demo_fs)\<rparr>"

definition demo_container :: container_open where
  "demo_container =
     \<lparr>co_format = Ewf,
      co_probe = (\<lambda>w. if has_magic w 0 [67] then Maybe else No),
      co_open = (\<lambda>s. Inr (if src_len s = 1 then ram_source [78, 84, 70] else s))\<rparr>"

definition locked_layer :: "encryption_scheme \<Rightarrow> encryption_layer" where
  "locked_layer scheme =
     \<lparr>el_scheme = scheme, el_open = (\<lambda>creds. Inl (NeedCredentials ''volume'' ''no key''))\<rparr>"

definition demo_luks :: encryption_open where
  "demo_luks =
     \<lparr>eo_scheme = Luks1, eo_probe = (\<lambda>w. if has_magic w 0 [76] then Yes ''LUKS'' else No),
      eo_open = (\<lambda>s. Inr (locked_layer Luks1))\<rparr>"

definition demo_veracrypt :: encryption_open where
  "demo_veracrypt =
     \<lparr>eo_scheme = VeraCrypt, eo_probe = (\<lambda>w. Maybe), eo_open = (\<lambda>s. Inr (locked_layer VeraCrypt))\<rparr>"

definition demo_openers :: "nat openers" where
  "demo_openers =
     openers_encryption (openers_container (openers_filesystem openers_new demo_prober) demo_container)
       demo_luks"

lemma demo_openers_simps [simp]:
  "op_containers demo_openers = [demo_container]" "op_volume_systems demo_openers = []"
  "op_encryption demo_openers = [demo_luks]" "op_filesystems demo_openers = [demo_prober]"
  "op_archives demo_openers = []" "op_trees demo_openers = []"
  by (simp_all add: demo_openers_def openers_builders)

lemma demo_opener_simps [simp]:
  "fo_kind demo_prober = 0"
  "fo_probe demo_prober w = (if has_magic w 0 [78, 84] then Yes ''NT'' else No)"
  "fo_open demo_prober s = (if src_len s = 2 then Inl (Bootstrap ''ntfs'' ''no MFT'') else Inr demo_fs)"
  "co_format demo_container = Ewf"
  "co_probe demo_container w = (if has_magic w 0 [67] then Maybe else No)"
  "co_open demo_container s = Inr (if src_len s = 1 then ram_source [78, 84, 70] else s)"
  "eo_scheme demo_luks = Luks1"
  "eo_probe demo_luks w = (if has_magic w 0 [76] then Yes ''LUKS'' else No)"
  "eo_open demo_luks s = Inr (locked_layer Luks1)"
  "el_open (locked_layer scheme) creds = Inl (NeedCredentials ''volume'' ''no key'')"
  by (simp_all add: demo_prober_def demo_container_def demo_luks_def locked_layer_def)

lemmas demo_windows = ram_claim_window [of "[78, 84]"] ram_claim_window [of "[67]"]
  ram_claim_window [of "[67, 0]"] ram_claim_window [of "[76]"] ram_claim_window [of "[78, 84, 70]"]
  ram_claim_window [of "[9]"]

lemma demo_has_magic:
  "length magic < 2 ^ 64 \<Longrightarrow> length bs < 2 ^ 64 \<Longrightarrow> has_magic (sniff_window_with_tail 0 bs n tail) 0 magic
     \<longleftrightarrow> length magic \<le> length bs \<and> take (length magic) bs = magic"
  by (simp add: has_magic_iff sniff_window_with_tail_def)

lemmas demo_run = open_eq_descent ordered_descent_or_try descend_filesystems_def descend_volumes_def
  descend_packaging_def signature_step_def attempt_step_def maybes_def max_depth_def
  demo_windows demo_has_magic

lemma demo_opened:
  "\<exists>r. open_with_credentials demo_openers no_credentials (ram_source [67]) (locator_file []) 0 = Inr (Some r)"
  by (simp add: demo_run)

lemma demo_unknown:
  "open_with_credentials demo_openers no_credentials (ram_source [9]) (locator_file []) 0 = Inr None"
  by (simp add: demo_run)

section \<open>Properties\<close>

text \<open>C2: everything \<open>open\<close> returns is mounted evidence with an honest route. A result's source was
  reached from the given source by at most \<open>MAX_DEPTH - depth\<close> steps, each through an opener that
  claimed the source before it; a registered prober claimed the final source and mounted the
  returned filesystem from it; and the locators record exactly that: the route's layers, then the
  filesystem's root.\<close>

theorem open_returns_reached:
  assumes "open_with_credentials ops creds source spec depth = Inr (Some r)"
  shows "\<exists>n layers. n + depth \<le> max_depth
    \<and> (peel ops creds ^^ n) (source, spec) (rs_source r, rs_source_spec r)
    \<and> mounted ops r
    \<and> locator_layers (rs_source_spec r) = locator_layers spec @ layers
    \<and> length layers = n \<and> list_all descent_layer layers"
proof -
  from open_Some_path [OF assms] obtain n where n: "n + depth \<le> max_depth" "mounted ops r"
    and path: "(peel ops creds ^^ n) (source, spec) (rs_source r, rs_source_spec r)" by blast
  from steps_layers [OF _ path, of descent_layer] peel_layers n path show ?thesis by fastforce
qed

theorem open_returns_reached_witness:
  "\<exists>r n layers. n + 0 \<le> max_depth
    \<and> (peel demo_openers no_credentials ^^ n) (ram_source [67], locator_file []) (rs_source r, rs_source_spec r)
    \<and> mounted demo_openers r
    \<and> locator_layers (rs_source_spec r) = locator_layers (locator_file []) @ layers
    \<and> length layers = n \<and> list_all descent_layer layers"
  using demo_opened open_returns_reached by blast

text \<open>C3: \<open>Ok(None)\<close> is a clean unknown. When \<open>open\<close> finds nothing, no filesystem prober claims the
  source itself nor any source that can be reached from it within the depth cap, through volumes,
  decryption with the given credentials, containers or archive members: no filesystem is missed.\<close>

theorem open_none_is_complete:
  assumes "open_with_credentials ops creds source spec depth = Inr None"
    and "(peel ops creds ^^ n) (source, spec) (s', spec')" and "n + depth \<le> max_depth"
  shows "\<not> claims_filesystem ops s'"
  by (rule open_None_complete [OF assms])

theorem open_none_is_complete_witness: "\<not> claims_filesystem demo_openers (ram_source [9])"
  by (rule open_none_is_complete [OF demo_unknown, of 0]) (simp_all add: max_depth_def)

text \<open>C15: an error of \<open>open\<close> is a fault of the evidence. It is the error that reading the sniff window
  of some source reachable within the depth cap gave, or that an opener which claimed that source
  gave when it opened it, or a decryption by a scheme that recognised its signature; an attempt of a
  scheme without one is never what fails.\<close>

theorem open_error_is_a_fault:
  assumes "open_with_credentials ops creds source spec depth = Inl e"
  shows "\<exists>n s' spec'. n + depth \<le> max_depth \<and> (peel ops creds ^^ n) (source, spec) (s', spec')
    \<and> layer_fault ops creds s' e"
  by (rule open_Inl_fault [OF assms])

lemma demo_locked:
  "open_with_credentials demo_openers no_credentials (ram_source [76]) (locator_file []) 0
     = Inl (NeedCredentials ''volume'' ''no key'')"
  by (simp add: demo_run)

theorem open_error_is_a_fault_witness:
  "\<exists>n s' spec'. (peel demo_openers no_credentials ^^ n) (ram_source [76], locator_file []) (s', spec')
     \<and> layer_fault demo_openers no_credentials s' (NeedCredentials ''volume'' ''no key'')"
  using open_error_is_a_fault [OF demo_locked] by blast

text \<open>C4: a wrong guess never shadows real evidence. Registering, anywhere in the list, a
  credential-attempt scheme whose decryption fails with these credentials changes no result: not a
  mount, not an unknown, not an error, at any depth.\<close>

theorem failing_attempt_changes_nothing:
  assumes "hopeless_attempt creds v"
  shows "open_with_credentials (add_encryption ops i v) creds source spec depth
    = open_with_credentials ops creds source spec depth"
  by (rule open_add_encryption [OF assms])

theorem failing_attempt_changes_nothing_witness:
  "open_with_credentials (add_encryption demo_openers 0 demo_veracrypt) no_credentials
      (ram_source [67]) (locator_file []) 0
    = open_with_credentials demo_openers no_credentials (ram_source [67]) (locator_file []) 0"
  by (rule failing_attempt_changes_nothing)
     (simp add: hopeless_attempt_def demo_veracrypt_def locked_layer_def)

text \<open>C19: a recognised filesystem is loud. When the first prober that claims the source fails to
  open it, that failure is the result, with no fall-through to another opener; when it opens it, the
  mount is the result. No volume system, container, archive or encryption opener is consulted.\<close>

theorem first_filesystem_decides:
  assumes "claim_window source = Inr w" and "depth \<le> max_depth"
    and "op_filesystems ops = ps @ p # qs"
    and "\<And>q. q \<in> set ps \<Longrightarrow> fo_probe q w = No" and "fo_probe p w \<noteq> No"
  shows "open_with_credentials ops creds source spec depth =
    (case fo_open p source of
       Inl e \<Rightarrow> Inl e
     | Inr fs \<Rightarrow> Inr (Some \<lparr>rs_fs = fs,
         rs_spec = locator_push spec (FsLayer (fo_kind p) (PathAddr [])),
         rs_source = source, rs_source_spec = spec\<rparr>))"
  using assms
  by (cases "fo_probe p w"; cases "fo_open p source")
     (simp_all add: open_eq_descent ordered_descent_or_try descend_filesystems_def try_each_append
       try_each_skip)

theorem first_filesystem_decides_witness:
  "open_with_credentials demo_openers no_credentials (ram_source [78, 84]) (locator_file []) 0
     = Inl (Bootstrap ''ntfs'' ''no MFT'')"
  using first_filesystem_decides [of "ram_source [78, 84]" "sniff_window_with_tail 0 [78, 84] 2 [78, 84]"
      0 demo_openers "[]" demo_prober "[]" no_credentials "locator_file []"]
  by (simp add: demo_windows demo_has_magic)

text \<open>C18: identified encryption is loud. When no filesystem and no volume system claims the source and
  the first scheme that recognises a signature cannot be constructed or cannot decrypt (with no
  credentials, \<open>NeedCredentials\<close>), that error is the result: the source is neither reported unknown
  nor tried as a container, an archive or another scheme.\<close>

theorem signature_encryption_loud:
  assumes "claim_window source = Inr w" and "depth \<le> max_depth"
    and "\<And>p. p \<in> set (op_filesystems ops) \<Longrightarrow> fo_probe p w = No"
    and "\<And>v. v \<in> set (op_volume_systems ops) \<Longrightarrow> vo_probe v w = No"
    and "op_encryption ops = es @ enc # rest"
    and "\<And>e. e \<in> set es \<Longrightarrow> \<not> is_yes (eo_probe e w)" and "eo_probe enc w = Yes how"
    and "res_bind (eo_open enc source) (\<lambda>layer. el_open layer creds) = Inl err"
  shows "open_with_credentials ops creds source spec depth = Inl err"
proof -
  have "descend_filesystems ops w source spec = Inr None"
    using assms(3) by (simp add: descend_filesystems_def try_each_skip)
  moreover have "descend_volumes ops w source spec depth f = Inr None"
    for f :: "('a, 'a resolved) recursor"
    using assms(4) by (simp add: descend_volumes_def try_each_skip)
  moreover have "try_each (signature_step w source spec depth creds f) es = Inr None"
    for f :: "('a, 'a resolved) recursor"
    using assms(6) by (intro try_each_skip) (simp add: signature_step_def)
  moreover have "signature_step w source spec depth creds f enc = Inl err"
    for f :: "('a, 'a resolved) recursor"
    using assms(7,8) by (cases "eo_open enc source") (simp_all add: signature_step_def)
  ultimately show ?thesis
    using assms(1,2,5) by (simp add: open_eq_descent ordered_descent_or_try try_each_append)
qed

theorem signature_encryption_loud_witness:
  "open_with_credentials demo_openers no_credentials (ram_source [76]) (locator_file []) 0
     = Inl (NeedCredentials ''volume'' ''no key'')"
  by (rule signature_encryption_loud [of _ "sniff_window_with_tail 0 [76] 1 [76]" _ _ "[]" demo_luks "[]"])
     (simp_all add: demo_windows demo_has_magic)

text \<open>C7: \<open>resolve_to_source\<close> always ends at a raw source when nothing fails: it never reports
  \<open>None\<close> within the depth cap, what it returns was reached through containers and archives only,
  and it is fully unwrapped, no packaging step leads further, unless the depth cap was reached. The
  locator gains one packaging layer per step.\<close>

theorem resolve_reaches_terminal:
  assumes "resolve_to_source ops source spec depth = Inr found" and "depth \<le> max_depth"
  shows "\<exists>r n layers. found = Some r \<and> n + depth \<le> max_depth
    \<and> (unpack ops ^^ n) (source, spec) (rsrc_source r, rsrc_spec r)
    \<and> (n + depth = max_depth \<or> (\<nexists>q. unpack ops (rsrc_source r, rsrc_spec r) q))
    \<and> locator_layers (rsrc_spec r) = locator_layers spec @ layers
    \<and> length layers = n \<and> list_all packaging_layer layers"
proof -
  from resolve_total [OF assms] obtain r where r: "found = Some r" ..
  from resolve_Some_path [OF assms(1) [unfolded r]] obtain n where n: "n + depth \<le> max_depth"
    "n + depth = max_depth \<or> (\<nexists>q. unpack ops (rsrc_source r, rsrc_spec r) q)"
    and path: "(unpack ops ^^ n) (source, spec) (rsrc_source r, rsrc_spec r)" by blast
  from steps_layers [OF _ path, of packaging_layer] unpack_layers r n path show ?thesis by fastforce
qed

lemma demo_resolved:
  "resolve_to_source demo_openers (ram_source [67]) (locator_file []) 0
     = Inr (Some \<lparr>rsrc_source = ram_source [78, 84, 70],
         rsrc_spec = locator_push (locator_file []) (ContainerLayer Ewf)\<rparr>)"
  by (simp add: resolve_eq demo_run)

theorem resolve_reaches_terminal_witness:
  "\<exists>n layers. n + 0 \<le> max_depth
    \<and> (unpack demo_openers ^^ n) (ram_source [67], locator_file [])
        (ram_source [78, 84, 70], locator_push (locator_file []) (ContainerLayer Ewf))
    \<and> length layers = n \<and> list_all packaging_layer (layers :: nat layer list)"
proof -
  from resolve_reaches_terminal [OF demo_resolved] obtain r n layers
    where "Some \<lparr>rsrc_source = ram_source [78, 84, 70],
        rsrc_spec = locator_push (locator_file []) (ContainerLayer Ewf)\<rparr> = Some r"
      and "n + 0 \<le> max_depth" "length layers = n" "list_all packaging_layer (layers :: nat layer list)"
      and "(unpack demo_openers ^^ n) (ram_source [67], locator_file []) (rsrc_source r, rsrc_spec r)"
    by blast
  then show ?thesis by (intro exI [of _ n] exI [of _ layers]) auto
qed



text \<open>C30: the directory terminal. The first registered opener that recognises the directory decides,
  loudly: its error is the result, its mount comes back under the directory's locator; and \<open>None\<close>
  means that no opener recognised it.\<close>

theorem open_tree_first_candidate:
  "open_tree ops root creds =
     (case find (\<lambda>t. is_candidate (to_probe t root)) (op_trees ops) of
        None \<Rightarrow> Inr None
      | Some t \<Rightarrow>
          (case to_open t root creds of
             Inl e \<Rightarrow> Inl e
           | Inr fs \<Rightarrow> Inr (Some \<lparr>rt_fs = fs, rt_spec = Locator (DirectoryLayer root) None\<rparr>)))"
proof -
  let ?f = "\<lambda>opener. if \<not> is_candidate (to_probe opener root) then Inr None
    else res_bind (to_open opener root creds) (\<lambda>fs.
      Inr (Some \<lparr>rt_fs = fs, rt_spec = locator_directory root\<rparr>))"
  have "try_each ?f ts =
     (case find (\<lambda>t. is_candidate (to_probe t root)) ts of
        None \<Rightarrow> Inr None
      | Some t \<Rightarrow>
          (case to_open t root creds of
             Inl e \<Rightarrow> Inl e
           | Inr fs \<Rightarrow> Inr (Some \<lparr>rt_fs = fs, rt_spec = Locator (DirectoryLayer root) None\<rparr>)))" for ts
    by (induction ts) (auto simp: locator_directory_def split: sum.splits)
  then show ?thesis by (simp add: open_tree_def)
qed

text \<open>C25: what a prober sees. On a window of a file (a partition, or the whole file) the sniff window
  that the resolver hands to every prober has, when both reads succeed, the window's length, a head
  that is a prefix of its first 128 KiB and a tail that is a prefix of its last 4 KiB, neither empty
  unless the window is. When the operating system never reads 128 KiB of the file short, they are the
  first 128 KiB of the window's bytes and the last 4 KiB of them, all of them when it is shorter.\<close>

theorem sniff_window_of_file:
  assumes "read_sniff_buffers (sub_range_source
      (sub_range_new (file_source_source cfg (opened_file f)) base len)) = Inr bufs"
  shows "(let bs = window_of (os_bytes f) base len
     in (131072 \<le> of_whole f \<longrightarrow> window_of_buffers bufs =
            sniff_window_with_tail 0 (take 131072 bs) (word_of_nat (length bs)) (drop (length bs - 4096) bs))
        \<and> (\<exists>h t. window_of_buffers bufs = sniff_window_with_tail 0 (take h bs) (word_of_nat (length bs))
                 (take t (drop (length bs - 4096) bs))
            \<and> h \<le> 131072 \<and> (h = 0 \<or> t = 0 \<longrightarrow> bs = [])))"
proof -
  have len: "word_of_nat (length (window_of (os_bytes f) base len))
      = sr_len (sub_range_new (file_source_source cfg (opened_file f)) base len)"
    unfolding raw_window.window.content_len [of f base len cfg] sub_range_source_simps
    by (simp only: of_nat_unat ucast_id)
  obtain h t where "window_of_buffers bufs = sniff_window_with_tail 0 (take h (window_of (os_bytes f) base len))
        (sr_len (sub_range_new (file_source_source cfg (opened_file f)) base len))
        (take t (drop (length (window_of (os_bytes f) base len) - 4096) (window_of (os_bytes f) base len)))"
    and "h \<le> min 131072 (length (window_of (os_bytes f) base len))"
    and "h = 0 \<longrightarrow> window_of (os_bytes f) base len = []" "t = 0 \<longrightarrow> window_of (os_bytes f) base len = []"
    by (rule raw_window.window.sniff_reads [OF assms, unfolded sub_range_source_simps]) blast
  then show ?thesis
    using raw_filling.full.sniffed [OF assms] unfolding Let_def len sub_range_source_simps min.bounded_iff
    by blast
qed

text \<open>A system that reads at most one byte at a time of a file of three, and one that reads all.\<close>

definition demo_file :: "nat \<Rightarrow> os_file" where
  "demo_file whole = \<lparr>of_len = 3, of_byte = (\<lambda>i. if i = 0 then 78 else 84), of_metadata_fault = None,
     of_read_fault = (\<lambda>_. None), of_whole = whole, of_short = (\<lambda>_ _. 1)\<rparr>"

definition demo_window :: "nat \<Rightarrow> image_source" where
  "demo_window whole =
     sub_range_source (sub_range_new (file_source_source Unix (opened_file (demo_file whole))) 1 2)"

lemma demo_window_reads: "src_read_at (demo_window whole) off buf \<noteq> (Inl e, buf')"
  by (simp add: demo_window_def sub_range_read_at_eq file_source_source_def file_source_read_at_def
      demo_file_def os_read_at_def Let_def)

lemma demo_window_sniffed: "\<exists>bufs. read_sniff_buffers (demo_window whole) = Inr bufs"
  by (auto simp: read_sniff_buffers_def Let_def demo_window_reads split: prod.splits sum.splits)

theorem sniff_window_of_file_witness:
  "\<exists>bufs. window_of_buffers bufs =
    (let bs = window_of (os_bytes (demo_file 131072)) 1 2
     in sniff_window_with_tail 0 (take 131072 bs) (word_of_nat (length bs)) (drop (length bs - 4096) bs))"
proof -
  obtain bufs where "read_sniff_buffers (sub_range_source
      (sub_range_new (file_source_source Unix (opened_file (demo_file 131072))) 1 2)) = Inr bufs"
    using demo_window_sniffed [of 131072] by (auto simp: demo_window_def)
  moreover have "131072 \<le> of_whole (demo_file 131072)" by (simp add: demo_file_def)
  ultimately show ?thesis using sniff_window_of_file unfolding Let_def by blast
qed

end
