(* ===== verification/Search_Order.thy ===== *)
theory Search_Order
  imports Resolver_Lemmas
begin

text \<open>
  The order of the resolver's search. The openers span a tree over a source: its mounts, then its
  children in the order the code tries them, each an error or a peeled source with its locator.
  \<open>outcomes\<close> and \<open>raw_outcomes\<close> list everything that tree holds down to a level, depth first,
  without ever stopping. The resolver, which stops early, descends with a list of indices on the
  side and passes closures to shared helpers, gives exactly the first entry of that list.
\<close>

section \<open>The first outcome\<close>

fun first_outcome :: "'b vfs_result list \<Rightarrow> 'b option vfs_result" where
  "first_outcome [] = Inr None"
| "first_outcome (Inl e # rs) = Inl e"
| "first_outcome (Inr y # rs) = Inr (Some y)"

named_theorems outcome \<open>early exit gives the first outcome\<close>

lemma first_outcome_append [outcome]: "first_outcome (xs @ ys) = or_try (first_outcome xs) (first_outcome ys)"
  by (cases xs rule: first_outcome.cases) simp_all

lemma first_outcome_concat [outcome]:
  "first_outcome (concat (map g xs)) = try_each (\<lambda>x. first_outcome (g x)) xs"
  by (induction xs) (simp_all add: first_outcome_append or_try_def)

lemma first_outcome_map [outcome]:
  "first_outcome (map g xs) = try_each (\<lambda>x. first_outcome [g x]) xs"
  using first_outcome_concat [of "\<lambda>x. [g x]" xs] by (simp add: concat_map_singleton)

lemma first_outcome_single [outcome]: "first_outcome [r] = res_bind r (\<lambda>y. Inr (Some y))"
  by (cases r) simp_all

lemma try_each_filter [outcome]:
  "try_each f (filter P xs) = try_each (\<lambda>x. if P x then f x else Inr None) xs"
  by (induction xs) (simp_all add: or_try_def [symmetric])

section \<open>The tree\<close>

type_synonym 'k place = "dyn_source \<times> 'k locator"

definition mounts :: "'k openers \<Rightarrow> sniff_window \<Rightarrow> 'k place \<Rightarrow> 'k resolved vfs_result list" where
  "mounts ops w q =
     map (\<lambda>p. res_bind (fo_open p (fst q)) (\<lambda>fs.
           Inr \<lparr>rs_fs = fs, rs_spec = locator_push (snd q) (FsLayer (fo_kind p) (PathAddr [])),
                rs_source = fst q, rs_source_spec = snd q\<rparr>))
       (filter (\<lambda>p. is_candidate (fo_probe p w)) (op_filesystems ops))"

definition volume_children :: "'k openers \<Rightarrow> sniff_window \<Rightarrow> 'k place \<Rightarrow> 'k place vfs_result list" where
  "volume_children ops w q = concat
     (map (\<lambda>v. case vo_open v (fst q) of
           Inl e \<Rightarrow> [Inl e]
         | Inr vs \<Rightarrow> map (\<lambda>i. res_bind (vs_open_volume vs i) (\<lambda>sub.
               Inr (sub, locator_push (snd q) (VolumeLayer (vo_scheme v) (word_of_nat i) None))))
             [0..<length (vs_volumes vs)])
       (filter (\<lambda>v. is_candidate (vo_probe v w)) (op_volume_systems ops)))"

definition signature_children ::
    "'k openers \<Rightarrow> credential_source \<Rightarrow> sniff_window \<Rightarrow> 'k place \<Rightarrow> 'k place vfs_result list" where
  "signature_children ops creds w q =
     map (\<lambda>enc. res_bind (eo_open enc (fst q)) (\<lambda>layer. res_bind (el_open layer creds) (\<lambda>plain.
           Inr (plain, locator_push (snd q) (EncryptionLayer (eo_scheme enc))))))
       (filter (\<lambda>enc. is_yes (eo_probe enc w)) (op_encryption ops))"

definition container_children :: "'k openers \<Rightarrow> sniff_window \<Rightarrow> 'k place \<Rightarrow> 'k place vfs_result list" where
  "container_children ops w q =
     map (\<lambda>cd. res_bind (co_open cd (fst q)) (\<lambda>decoded.
           Inr (decoded, locator_push (snd q) (ContainerLayer (co_format cd)))))
       (filter (\<lambda>cd. is_candidate (co_probe cd w)) (op_containers ops))"

definition archive_children :: "'k openers \<Rightarrow> sniff_window \<Rightarrow> 'k place \<Rightarrow> 'k place vfs_result list" where
  "archive_children ops w q = concat
     (map (\<lambda>ar. case ao_open ar (fst q) of
           Inl e \<Rightarrow> [Inl e]
         | Inr (ArchiveStream inner) \<Rightarrow> [Inr (inner, locator_push (snd q) (ArchiveLayer None))]
         | Inr (ArchiveMembers ms) \<Rightarrow>
             map (\<lambda>(i, m). Inr (mem_source m, locator_push (snd q) (ArchiveLayer (Some (word_of_nat i)))))
               (enumerate 0 ms))
       (filter (\<lambda>ar. is_candidate (ao_probe ar w)) (op_archives ops)))"

text \<open>An attempt that does not decrypt has no outcome at all.\<close>

definition attempt_children ::
    "'k openers \<Rightarrow> credential_source \<Rightarrow> sniff_window \<Rightarrow> 'k place \<Rightarrow> 'k place vfs_result list" where
  "attempt_children ops creds w q = concat
     (map (\<lambda>enc. case eo_open enc (fst q) of
           Inl e \<Rightarrow> [Inl e]
         | Inr layer \<Rightarrow> (case el_open layer creds of
               Inl e \<Rightarrow> []
             | Inr plain \<Rightarrow> [Inr (plain, locator_push (snd q) (EncryptionLayer (eo_scheme enc)))]))
       (filter (\<lambda>enc. eo_probe enc w = Maybe) (op_encryption ops)))"

definition packaging_children :: "'k openers \<Rightarrow> sniff_window \<Rightarrow> 'k place \<Rightarrow> 'k place vfs_result list" where
  "packaging_children ops w q = container_children ops w q @ archive_children ops w q"

definition peeled_children ::
    "'k openers \<Rightarrow> credential_source \<Rightarrow> sniff_window \<Rightarrow> 'k place \<Rightarrow> 'k place vfs_result list" where
  "peeled_children ops creds w q = volume_children ops w q @ signature_children ops creds w q
     @ packaging_children ops w q @ attempt_children ops creds w q"

text \<open>What lies under a child: its error, or the outcomes of the place.\<close>

fun below :: "('k place \<Rightarrow> 'b vfs_result list) \<Rightarrow> 'k place vfs_result \<Rightarrow> 'b vfs_result list" where
  "below f (Inl e) = [Inl e]"
| "below f (Inr q) = f q"

primrec outcomes ::
    "'k openers \<Rightarrow> credential_source \<Rightarrow> nat \<Rightarrow> 'k place \<Rightarrow> 'k resolved vfs_result list" where
  "outcomes ops creds 0 = (\<lambda>q. [])"
| "outcomes ops creds (Suc n) = (\<lambda>q.
     (case claim_window (fst q) of
        Inl e \<Rightarrow> [Inl e]
      | Inr w \<Rightarrow> mounts ops w q
          @ concat (map (below (outcomes ops creds n)) (peeled_children ops creds w q))))"

primrec raw_outcomes :: "'k openers \<Rightarrow> nat \<Rightarrow> 'k place \<Rightarrow> 'k resolved_source vfs_result list" where
  "raw_outcomes ops 0 = (\<lambda>q. [])"
| "raw_outcomes ops (Suc n) = (\<lambda>q.
     (case claim_window (fst q) of
        Inl e \<Rightarrow> [Inl e]
      | Inr w \<Rightarrow> concat (map (below (raw_outcomes ops n)) (packaging_children ops w q))
          @ [Inr \<lparr>rsrc_source = fst q, rsrc_spec = snd q\<rparr>]))"

section \<open>Each descent takes the first outcome of its children\<close>

text \<open>A recursor of the code, one level deeper, against the places of the tree.\<close>

definition under ::
    "('k place \<Rightarrow> 'b vfs_result list) \<Rightarrow> 'k place vfs_result list \<Rightarrow> 'b option vfs_result" where
  "under g children = first_outcome (concat (map (below g) children))"

lemma under_append [outcome]: "under g (xs @ ys) = or_try (under g xs) (under g ys)"
  by (simp add: under_def outcome)

lemma under_single:
  "under g [r] = res_bind r (\<lambda>q. first_outcome (g q))" "under g [] = Inr None"
  by (cases r; simp add: under_def)+

lemma under_map [outcome]: "under g (map h xs) = try_each (\<lambda>x. res_bind (h x) (\<lambda>q. first_outcome (g q))) xs"
proof -
  have "first_outcome (below g (h x)) = res_bind (h x) (\<lambda>q. first_outcome (g q))" for x
    by (cases "h x") simp_all
  then show ?thesis by (simp add: under_def comp_def first_outcome_concat)
qed

lemma under_concat [outcome]: "under g (concat (map h xs)) = try_each (\<lambda>x. under g (h x)) xs"
  by (induction xs) (simp_all add: under_single under_append or_try_def)

lemma mounts_first [outcome]: "first_outcome (mounts ops w (s, spec)) = descend_filesystems ops w s spec"
  unfolding mounts_def descend_filesystems_def
  by (simp add: outcome Let_def res_bind_assoc cong: if_cong)

text \<open>\<open>agrees f g depth\<close>: one level deeper the recursor \<open>f\<close> gives the first outcome of \<open>g\<close>.\<close>

definition agrees :: "('k, 'b) recursor \<Rightarrow> ('k place \<Rightarrow> 'b vfs_result list) \<Rightarrow> nat \<Rightarrow> bool" where
  "agrees f g depth \<longleftrightarrow> (\<forall>s spec. f s spec (depth + 1) = first_outcome (g (s, spec)))"

lemma agreesD: "agrees f g depth \<Longrightarrow> f s spec (depth + 1) = first_outcome (g (s, spec))"
  by (simp add: agrees_def)

lemma volumes_first:
  assumes "agrees f g depth"
  shows "under g (volume_children ops w (s, spec)) = descend_volumes ops w s spec depth f"
proof -
  have "under g (case vo_open v s of
           Inl e \<Rightarrow> [Inl e]
         | Inr vs \<Rightarrow> map (\<lambda>i. res_bind (vs_open_volume vs i) (\<lambda>sub.
               Inr (sub, locator_push spec (VolumeLayer (vo_scheme v) (word_of_nat i) None))))
             [0..<length (vs_volumes vs)])
      = res_bind (vo_open v s) (\<lambda>vs. try_each (\<lambda>i. res_bind (vs_open_volume vs i) (\<lambda>sub.
          f sub (locator_push spec (VolumeLayer (vo_scheme v) (word_of_nat i) None)) (depth + 1)))
          [0..<length (vs_volumes vs)])" for v :: volume_system_open
    by (cases "vo_open v s") (simp_all only: sum.case under_single under_map agreesD [OF assms] res_bind.simps res_bind_assoc)
  then show ?thesis
    by (simp only: volume_children_def descend_volumes_def fst_conv snd_conv under_concat try_each_filter cong: if_cong)
qed

lemma signature_first:
  assumes "agrees f g depth"
  shows "under g (signature_children ops creds w (s, spec))
    = try_each (signature_step w s spec depth creds f) (op_encryption ops)"
  by (simp only: signature_children_def signature_step_def [abs_def] fst_conv snd_conv under_map
      try_each_filter res_bind_assoc res_bind.simps agreesD [OF assms] cong: if_cong)

lemma packaging_first:
  assumes "agrees f g depth"
  shows "under g (packaging_children ops w (s, spec)) = descend_packaging ops w s spec depth f"
proof -
  have "under g (case ao_open ar s of
           Inl e \<Rightarrow> [Inl e]
         | Inr (ArchiveStream inner) \<Rightarrow> [Inr (inner, locator_push spec (ArchiveLayer None))]
         | Inr (ArchiveMembers ms) \<Rightarrow>
             map (\<lambda>(i, m). Inr (mem_source m, locator_push spec (ArchiveLayer (Some (word_of_nat i)))))
               (enumerate 0 ms))
      = res_bind (ao_open ar s) (\<lambda>contents.
          case contents of
            ArchiveStream inner \<Rightarrow> f inner (locator_push spec (ArchiveLayer None)) (depth + 1)
          | ArchiveMembers members \<Rightarrow>
              try_each (\<lambda>(index, m).
                f (mem_source m) (locator_push spec (ArchiveLayer (Some (word_of_nat index)))) (depth + 1))
                (enumerate 0 members))" for ar :: archive_open
    by (simp only: agreesD [OF assms])
       (simp add: under_single under_map case_prod_unfold split: sum.splits archive_contents.splits)
  then show ?thesis
    by (simp only: packaging_children_def container_children_def archive_children_def
        descend_packaging_def under_append under_map under_concat try_each_filter fst_conv snd_conv
        res_bind_assoc res_bind.simps agreesD [OF assms] cong: if_cong)
qed

lemma attempts_first:
  assumes "agrees f g depth"
  shows "under g (attempt_children ops creds w (s, spec))
    = try_each (attempt_step s spec depth creds f) (maybes w (op_encryption ops))"
proof -
  have "under g (case eo_open enc s of
           Inl e \<Rightarrow> [Inl e]
         | Inr layer \<Rightarrow> (case el_open layer creds of
               Inl e \<Rightarrow> []
             | Inr plain \<Rightarrow> [Inr (plain, locator_push spec (EncryptionLayer (eo_scheme enc)))]))
      = attempt_step s spec depth creds f enc" for enc :: encryption_open
    unfolding attempt_step_def agreesD [OF assms]
    by (auto simp: under_single split: sum.splits)
  then show ?thesis
    by (simp only: attempt_children_def maybes_def fst_conv snd_conv under_concat)
qed

lemma descent_first:
  assumes "agrees f g depth"
  shows "or_try (first_outcome (mounts ops w (s, spec))) (under g (peeled_children ops creds w (s, spec)))
    = ordered_descent ops w s spec depth creds f"
  by (simp only: ordered_descent_or_try peeled_children_def under_append mounts_first
      volumes_first [OF assms] signature_first [OF assms] packaging_first [OF assms]
      attempts_first [OF assms])

section \<open>The search\<close>

lemma open_first_outcome:
  "open_with_credentials ops creds source spec depth
     = first_outcome (outcomes ops creds (max_depth + 1 - depth) (source, spec))"
proof (induction "max_depth + 1 - depth" arbitrary: source spec depth)
  case 0
  then show ?case by (simp add: open_eq_descent)
next
  case (Suc n)
  have n: "n = max_depth + 1 - (depth + 1)" using Suc(2) by simp
  have "agrees (open_with_credentials ops creds) (outcomes ops creds n) depth"
    using Suc(1) [OF n] unfolding agrees_def n by blast
  note descent = descent_first [OF this]
  have "\<not> depth > max_depth" using Suc(2) by simp
  then show ?case
    unfolding Suc(2) [symmetric]
    by (cases "claim_window source")
       (simp_all add: open_eq_descent [of ops creds source] first_outcome_append
         under_def [symmetric] descent)
qed

lemma resolve_first_outcome:
  "resolve_to_source ops source spec depth
     = first_outcome (raw_outcomes ops (max_depth + 1 - depth) (source, spec))"
proof (induction "max_depth + 1 - depth" arbitrary: source spec depth)
  case 0
  then show ?case by (simp add: resolve_eq)
next
  case (Suc n)
  have n: "n = max_depth + 1 - (depth + 1)" using Suc(2) by simp
  have "agrees (resolve_to_source ops) (raw_outcomes ops n) depth"
    using Suc(1) [OF n] unfolding agrees_def n by blast
  note packaging = packaging_first [OF this]
  have "\<not> depth > max_depth" using Suc(2) by simp
  then show ?case
    unfolding Suc(2) [symmetric]
    by (cases "claim_window source")
       (simp_all add: resolve_eq [of ops source] first_outcome_append under_def [symmetric] packaging)
qed

text \<open>C13: the order of the search. \<open>outcomes\<close> lists, without ever stopping, every mount and every
  failure that the openers have for the evidence, in the documented order: at each source the
  filesystems that claim it, then depth first the volumes, the schemes that recognise a signature,
  the containers, the archives, and last the schemes that only a credential can try, each in
  registration order, an attempt that does not decrypt counting for nothing. \<open>open\<close> gives exactly the
  first of them, \<open>None\<close> when there is none; so whatever comes later in that order cannot influence
  it. \<open>resolve_to_source\<close> does the same over packaging alone, the source itself coming last.\<close>

theorem search_takes_first_outcome:
  "open_with_credentials ops creds source spec depth
     = first_outcome (outcomes ops creds (max_depth + 1 - depth) (source, spec))
   \<and> resolve_to_source ops source spec depth
     = first_outcome (raw_outcomes ops (max_depth + 1 - depth) (source, spec))"
  using open_first_outcome resolve_first_outcome by blast

end
