(* ===== verification/Walk_Properties.thy ===== *)
theory Walk_Properties
  imports Walk
begin

text \<open>
  The traversal is sound, complete and loud: what \<open>walk\<close> returns is the listings of distinct
  reachable directories, every reachable node is among them unless the depth cap cut something
  off, and an error anywhere is the result. \<open>dir_at\<close> is the specification of reachability.
\<close>

inductive dir_at :: "'k file_system \<Rightarrow> bytes list \<Rightarrow> file_id \<Rightarrow> bool" for fs :: "'k file_system" where
  dir_at_root: "dir_at fs [] (fs_root fs)"
| dir_at_sub: "dir_at fs p i \<Longrightarrow> dir_listing fs p i = Inr es \<Longrightarrow> e \<in> set es \<Longrightarrow> is_dir_entry e \<Longrightarrow>
    dir_at fs (we_path e) (we_id e)"

section \<open>Listings\<close>

lemma list_items_entry:
  "list_items fs prefix items = Inr es \<Longrightarrow> e \<in> set es \<Longrightarrow>
     (\<exists>name. we_path e = prefix @ [name] \<and> \<not> dot_name name) \<and> fs_meta_of fs (we_id e) = Inr (we_meta e)"
  by (induction items arbitrary: es) (auto simp: res_bind_Inr_iff split: if_splits)

lemma dir_listing_entry:
  "dir_listing fs prefix dir = Inr es \<Longrightarrow> e \<in> set es \<Longrightarrow>
     (\<exists>name. we_path e = prefix @ [name] \<and> \<not> dot_name name) \<and> fs_meta_of fs (we_id e) = Inr (we_meta e)"
  by (auto simp: dir_listing_def res_bind_Inr_iff dest: list_items_entry)

text \<open>Under another path a directory lists the same nodes.\<close>

definition same_node :: "walk_entry \<Rightarrow> walk_entry \<Rightarrow> bool" where
  "same_node a b \<longleftrightarrow> we_id a = we_id b \<and> we_meta a = we_meta b"

lemma list_items_prefix:
  "list_items fs p items = Inr es \<Longrightarrow> \<exists>es'. list_items fs q items = Inr es' \<and> list_all2 same_node es es'"
  by (induction items arbitrary: es)
     (fastforce simp: res_bind_Inr_iff same_node_def split: if_splits)+

lemma dir_listing_prefix:
  assumes "dir_listing fs p dir = Inr es"
  shows "\<exists>es'. dir_listing fs q dir = Inr es' \<and> list_all2 same_node es es'"
  using assms list_items_prefix [of fs p _ es q] by (auto simp: dir_listing_def res_bind_Inr_iff)

section \<open>Runs\<close>

type_synonym visit = "bytes list \<times> file_id \<times> walk_entry list"

definition visit_id :: "visit \<Rightarrow> file_id" where
  "visit_id v = fst (snd v)"

definition visit_entries :: "visit \<Rightarrow> walk_entry list" where
  "visit_entries v = snd (snd v)"

lemma visit_simps [simp]: "visit_id (p, i, es) = i" "visit_entries (p, i, es) = es"
  by (simp_all add: visit_id_def visit_entries_def)

definition visit_ok :: "'k file_system \<Rightarrow> visit \<Rightarrow> bool" where
  "visit_ok fs v = (case v of (p, i, es) \<Rightarrow>
     length p \<le> walk_max_depth \<and> dir_at fs p i \<and> dir_listing fs p i = Inr es)"

text \<open>Every subdirectory of \<open>v\<close> that is within the cap is among \<open>ids\<close>.\<close>

definition closed_in :: "file_id set \<Rightarrow> visit \<Rightarrow> bool" where
  "closed_in ids v = (case v of (p, i, es) \<Rightarrow>
     length p < walk_max_depth \<longrightarrow> we_id ` set (filter is_dir_entry es) \<subseteq> ids)"

definition item_ok :: "'k file_system \<Rightarrow> walk_item \<Rightarrow> bool" where
  "item_ok fs x = (case x of (p, i, d) \<Rightarrow> d = length p \<and> dir_at fs p i)"

definition pending :: "walk_item list \<Rightarrow> file_id set" where
  "pending stack = {i. \<exists>p d. (p, i, d) \<in> set stack \<and> d \<le> walk_max_depth}"

lemma pending_simps [simp]:
  "pending [] = {}"
  "pending ((p, i, d) # stack) = (if d \<le> walk_max_depth then {i} else {}) \<union> pending stack"
  "pending (xs @ ys) = pending xs \<union> pending ys"
  "pending (rev xs) = pending xs"
  by (auto simp: pending_def)

lemma pending_subdirs:
  "pending (subdirs d es) = (if d < walk_max_depth then we_id ` set (filter is_dir_entry es) else {})"
  by (force simp: pending_def subdirs_def image_iff)

lemma item_ok_subdirs:
  assumes "item_ok fs (prefix, i, depth)" and "dir_listing fs prefix i = Inr es"
  shows "list_all (item_ok fs) (subdirs depth es)"
  using assms dir_listing_entry [OF assms(2)]
  by (fastforce simp: item_ok_def subdirs_def list_all_iff intro: dir_at_sub)

definition run_of :: "'k file_system \<Rightarrow> walk_item list \<Rightarrow> file_id set \<Rightarrow> visit list \<Rightarrow> bool" where
  "run_of fs stack visited vs \<longleftrightarrow>
     list_all (visit_ok fs) vs \<and> distinct (map visit_id vs) \<and> visit_id ` set vs \<inter> visited = {}
     \<and> pending stack \<subseteq> visited \<union> visit_id ` set vs
     \<and> list_all (closed_in (visited \<union> visit_id ` set vs)) vs"

lemma run_of_step:
  assumes "run_of fs (rev (subdirs d es) @ stack) (insert i visited) vs"
    and "dir_listing fs p i = Inr es" and "item_ok fs (p, i, d)" and "d \<le> walk_max_depth" "i \<notin> visited"
  shows "run_of fs ((p, i, d) # stack) visited ((p, i, es) # vs)"
  using assms
  by (auto simp: run_of_def visit_ok_def item_ok_def closed_in_def pending_subdirs split: if_splits)

lemma walk_loop_run:
  assumes "walk_loop fs stack visited out = Inr res" and "list_all (item_ok fs) stack"
  shows "\<exists>vs. res = out @ concat (map visit_entries vs) \<and> run_of fs stack visited vs"
  using assms
proof (induction fs stack visited out rule: walk_loop.induct)
  case (1 fs visited out)
  then show ?case by (intro exI [of _ "[]"]) (simp add: run_of_def)
next
  case (2 fs prefix dir_id depth stack visited out)
  show ?case
  proof (cases "depth > walk_max_depth \<or> dir_id \<in> visited")
    case True
    with 2 obtain vs where "res = out @ concat (map visit_entries vs)" "run_of fs stack visited vs"
      by (auto simp del: walk_loop.simps simp: walk_loop_skip)
    with True show ?thesis by (intro exI [of _ vs]) (auto simp: run_of_def)
  next
    case False
    with "2.prems"(1) obtain es where es: "dir_listing fs prefix dir_id = Inr es"
      and rest: "walk_loop fs (rev (subdirs depth es) @ stack) (insert dir_id visited) (out @ es) = Inr res"
      by (auto simp del: walk_loop.simps simp: walk_loop_step res_bind_Inr_iff)
    from es obtain entries where rd: "fs_read_dir fs dir_id = Inr entries"
      and li: "list_items fs prefix (stream_items entries) = Inr es"
      by (auto simp: dir_listing_def res_bind_Inr_iff)
    have items: "list_all (item_ok fs) (rev (subdirs depth es) @ stack)"
      using item_ok_subdirs [OF _ es, of depth] "2.prems"(2) by (simp add: list_all_rev)
    from "2.IH"(2) [OF False refl rd, of "(rev (subdirs depth es) @ stack, out @ es)"] li rest items
    obtain vs where "res = (out @ es) @ concat (map visit_entries vs)"
      and "run_of fs (rev (subdirs depth es) @ stack) (insert dir_id visited) vs"
      by (auto simp: walk_entries_spec)
    with run_of_step [OF _ es, of depth stack visited vs] False "2.prems"(2) show ?thesis
      by (intro exI [of _ "(prefix, dir_id, es) # vs"]) simp
  qed
qed

lemma walk_run:
  assumes "walk fs = Inr res"
  shows "\<exists>vs. res = concat (map visit_entries vs) \<and> run_of fs [([], fs_root fs, 0)] {} vs"
  using walk_loop_run [of fs "[([], fs_root fs, 0)]" "{}" "[]" res] assms
  by (simp add: walk_def item_ok_def dir_at_root)

lemma dir_at_names: "dir_at fs p i \<Longrightarrow> list_all (\<lambda>c. \<not> dot_name c) p"
  by (induction rule: dir_at.induct) (auto dest!: dir_listing_entry)

lemma walk_loop_error:
  assumes "walk_loop fs stack visited out = Inl e" and "list_all (item_ok fs) stack"
  shows "\<exists>p i. length p \<le> walk_max_depth \<and> dir_at fs p i \<and> dir_listing fs p i = Inl e"
  using assms
proof (induction fs stack visited out rule: walk_loop.induct)
  case (2 fs prefix dir_id depth stack visited out)
  show ?case
  proof (cases "depth > walk_max_depth \<or> dir_id \<in> visited")
    case True
    with 2 show ?thesis by (simp del: walk_loop.simps add: walk_loop_skip)
  next
    case False
    show ?thesis
    proof (cases "dir_listing fs prefix dir_id")
      case (Inl e')
      with 2 False have "e' = e" by (simp del: walk_loop.simps add: walk_loop_step)
      with Inl False "2.prems"(2) show ?thesis
        by (intro exI [of _ prefix] exI [of _ dir_id]) (simp add: item_ok_def)
    next
      case (Inr es)
      with "2.prems"(1) False
      have rest: "walk_loop fs (rev (subdirs depth es) @ stack) (insert dir_id visited) (out @ es) = Inl e"
        by (simp del: walk_loop.simps add: walk_loop_step)
      from Inr obtain entries where rd: "fs_read_dir fs dir_id = Inr entries"
        and li: "list_items fs prefix (stream_items entries) = Inr es"
        by (auto simp: dir_listing_def res_bind_Inr_iff)
      have items: "list_all (item_ok fs) (rev (subdirs depth es) @ stack)"
        using item_ok_subdirs [OF _ Inr, of depth] "2.prems"(2) by (simp add: list_all_rev)
      from "2.IH"(2) [OF False refl rd, of "(rev (subdirs depth es) @ stack, out @ es)"] li rest items
      show ?thesis by (simp add: walk_entries_spec)
    qed
  qed
qed simp

section \<open>Reachable directories are visited\<close>

definition cap_not_hit :: "walk_entry list \<Rightarrow> bool" where
  "cap_not_hit res \<longleftrightarrow> list_all (\<lambda>e. is_dir_entry e \<longrightarrow> length (we_path e) \<le> walk_max_depth) res"

lemma run_visits_all:
  assumes "run_of fs [([], fs_root fs, 0)] {} vs" and "cap_not_hit (concat (map visit_entries vs))"
    and "dir_at fs p i"
  shows "\<exists>q es. (q, i, es) \<in> set vs"
  using assms(3)
proof (induction rule: dir_at.induct)
  case dir_at_root
  from assms(1) show ?case by (force simp: run_of_def visit_id_def)
next
  case (dir_at_sub p i es e)
  then obtain q es' where v: "(q, i, es') \<in> set vs" by blast
  from v assms(1) have l: "dir_listing fs q i = Inr es'"
    and c: "closed_in (visit_id ` set vs) (q, i, es')"
    by (auto simp: run_of_def visit_ok_def list_all_iff)
  from dir_listing_prefix [OF dir_at_sub.hyps(2), of q] l have "list_all2 same_node es es'" by simp
  with dir_at_sub.hyps(3) obtain e' where e': "e' \<in> set es'" "same_node e e'"
    by (metis list_all2_conv_all_nth in_set_conv_nth)
  have d: "is_dir_entry e'" using e'(2) dir_at_sub.hyps(4) by (simp add: is_dir_entry_def same_node_def)
  with assms(2) v e'(1) have "length (we_path e') \<le> walk_max_depth"
    by (fastforce simp: cap_not_hit_def list_all_iff)
  with dir_listing_entry [OF l e'(1)] have "length q < walk_max_depth" by auto
  with c d e' have "we_id e \<in> visit_id ` set vs"
    by (auto simp: closed_in_def same_node_def)
  then show ?case by (force simp: visit_id_def)
qed

section \<open>An instance\<close>

text \<open>A root that holds itself, a file and the dot entries.\<close>

definition loop_meta :: "node_kind \<Rightarrow> fs_meta" where
  "loop_meta k = \<lparr>fm_ino = 0, fm_kind = k, fm_allocated = Allocated, fm_size = 0, fm_nlink = 1,
     fm_uid = None, fm_gid = None, fm_mode = None,
     fm_times = \<lparr>mt_modified = None, mt_accessed = None, mt_changed = None, mt_born = None\<rparr>,
     fm_streams = [], fm_residency = NonResident, fm_link_target = None\<rparr>"

definition loop_entry :: "bytes \<Rightarrow> u64 \<Rightarrow> dir_entry vfs_result" where
  "loop_entry name n = Inr \<lparr>de_name = name, de_id = OpaqueId n, de_kind = OtherNode\<rparr>"

definition loop_fs :: "file_id set \<Rightarrow> nat file_system" where
  "loop_fs bad =
     \<lparr>fs_kind = 0, fs_root = OpaqueId 5, fs_sector_sizes = \<lparr>ss_logical = 512, ss_physical = 512,
        ss_cluster_or_block = 4096\<rparr>, fs_timestamp_zone = Utc, fs_volume_label = None,
      fs_read_dir = (\<lambda>_. Inr (stream_new [loop_entry [46] 5, loop_entry [97] 5, loop_entry [98] 6])),
      fs_extents = (\<lambda>_ _. Inr stream_empty), fs_lookup = (\<lambda>_ _. Inr None),
      fs_meta_of = (\<lambda>i. if i \<in> bad then Inl (Unsupported ''demo'' ''meta'')
        else Inr (loop_meta (if i = OpaqueId 5 then DirNode else FileNode))),
      fs_read_at = (\<lambda>_ _ _ buf. (Inr 0, buf)), fs_read_link = (\<lambda>_ _. Inr []),
      fs_data_streams = (\<lambda>_. Inr []), fs_hardlinks = (\<lambda>_. Inr []), fs_deleted = Inr stream_empty,
      fs_deleted_nodes = Inr stream_empty, fs_unallocated = Inr stream_empty,
      fs_slack = (\<lambda>_ _. Inr None)\<rparr>"

definition loop_found :: "walk_entry list" where
  "loop_found =
     [\<lparr>we_path = [[97]], we_id = OpaqueId 5, we_meta = loop_meta DirNode\<rparr>,
      \<lparr>we_path = [[98]], we_id = OpaqueId 6, we_meta = loop_meta FileNode\<rparr>]"

lemma loop_walk: "walk (loop_fs {}) = Inr loop_found"
  by (simp add: walk_def loop_fs_def loop_entry_def loop_found_def loop_meta_def walk_max_depth_def
      dot_name_def Let_def)

lemma loop_walk_bad: "walk (loop_fs {OpaqueId 6}) = Inl (Unsupported ''demo'' ''meta'')"
  by (simp add: walk_def loop_fs_def loop_entry_def loop_meta_def walk_max_depth_def
      dot_name_def Let_def)

section \<open>Properties\<close>

text \<open>C6: \<open>walk\<close> invents nothing and repeats nothing. A successful traversal is the listings, in
  order, of distinct directories, each reachable from the root by a path of at most 256 names. So
  every entry is a node that a reachable directory lists, under the directory's path and its own
  name, with the metadata the filesystem reports; dot entries never occur on a path; and no
  directory is read twice, loops and hard links included.\<close>

theorem walk_lists_reachable_once:
  assumes "walk fs = Inr res"
  shows "\<exists>vs. res = concat (map visit_entries vs) \<and> distinct (map visit_id vs)
    \<and> list_all (\<lambda>(p, i, es). length p \<le> 256 \<and> dir_at fs p i \<and> dir_listing fs p i = Inr es
        \<and> list_all (\<lambda>c. \<not> dot_name c) p
        \<and> list_all (\<lambda>e. butlast (we_path e) = p \<and> \<not> dot_name (last (we_path e))
            \<and> fs_meta_of fs (we_id e) = Inr (we_meta e)) es) vs"
proof -
  from walk_run [OF assms] obtain vs where vs: "res = concat (map visit_entries vs)"
    and run: "run_of fs [([], fs_root fs, 0)] {} vs" by blast
  have "length p \<le> 256 \<and> dir_at fs p i \<and> dir_listing fs p i = Inr es \<and> list_all (\<lambda>c. \<not> dot_name c) p
      \<and> list_all (\<lambda>e. butlast (we_path e) = p \<and> \<not> dot_name (last (we_path e))
          \<and> fs_meta_of fs (we_id e) = Inr (we_meta e)) es"
    if "(p, i, es) \<in> set vs" for p i es
  proof -
    from that run have "visit_ok fs (p, i, es)" by (auto simp: run_of_def list_all_iff)
    then have ok: "length p \<le> 256" "dir_at fs p i" "dir_listing fs p i = Inr es"
      by (auto simp: visit_ok_def walk_max_depth_def)
    from dir_listing_entry [OF ok(3)] have "list_all (\<lambda>e. butlast (we_path e) = p
        \<and> \<not> dot_name (last (we_path e)) \<and> fs_meta_of fs (we_id e) = Inr (we_meta e)) es"
      by (fastforce simp: list_all_iff)
    with ok dir_at_names show ?thesis by blast
  qed
  with vs run show ?thesis
    by (intro exI [of _ vs]) (auto simp: run_of_def list_all_iff [of _ vs])
qed

theorem walk_lists_reachable_once_witness:
  "\<exists>vs. loop_found = concat (map visit_entries vs) \<and> distinct (map visit_id vs)"
  using walk_lists_reachable_once [OF loop_walk] by blast

text \<open>C5: \<open>walk\<close> misses nothing. Unless the depth cap cut a directory off, every directory that is
  reachable from the root, by whatever path, could be listed, and every node it lists is among the
  results, with its metadata.\<close>

theorem walk_complete:
  assumes "walk fs = Inr res" and "cap_not_hit res" and "dir_at fs p i"
  shows "\<exists>es. dir_listing fs p i = Inr es
    \<and> (\<lambda>e. (we_id e, we_meta e)) ` set es \<subseteq> (\<lambda>e. (we_id e, we_meta e)) ` set res"
proof -
  from walk_run [OF assms(1)] obtain vs where vs: "res = concat (map visit_entries vs)"
    and run: "run_of fs [([], fs_root fs, 0)] {} vs" by blast
  from run_visits_all [OF run] assms(2,3) vs obtain q es' where v: "(q, i, es') \<in> set vs" by blast
  with run have "dir_listing fs q i = Inr es'" by (auto simp: run_of_def visit_ok_def list_all_iff)
  from dir_listing_prefix [OF this, of p] obtain es where es: "dir_listing fs p i = Inr es"
    and same: "list_all2 same_node es' es" by blast
  from v vs have sub: "set es' \<subseteq> set res" by force
  have "map (\<lambda>e. (we_id e, we_meta e)) es = map (\<lambda>e. (we_id e, we_meta e)) es'"
    using same by (auto simp: list_all2_conv_all_nth same_node_def intro: nth_equalityI)
  then have "(\<lambda>e. (we_id e, we_meta e)) ` set es = (\<lambda>e. (we_id e, we_meta e)) ` set es'"
    by (metis set_map)
  with es sub show ?thesis by (intro exI [of _ es]) auto
qed

theorem walk_complete_witness:
  "\<exists>es. dir_listing (loop_fs {}) [] (OpaqueId 5) = Inr es
    \<and> (\<lambda>e. (we_id e, we_meta e)) ` set es \<subseteq> (\<lambda>e. (we_id e, we_meta e)) ` set loop_found"
proof -
  have "cap_not_hit loop_found"
    by (simp add: cap_not_hit_def loop_found_def walk_max_depth_def)
  moreover have "dir_at (loop_fs {}) [] (OpaqueId 5)"
    using dir_at_root [of "loop_fs {}"] by (simp add: loop_fs_def)
  ultimately show ?thesis using walk_complete [OF loop_walk] by blast
qed

text \<open>C28: \<open>walk\<close> is loud: when it fails, its error is the first error of listing some directory that
  is reachable within the depth cap, from \<open>read_dir\<close>, from the entry stream or from \<open>meta\<close>.\<close>

theorem walk_error_is_a_read_error:
  assumes "walk fs = Inl e"
  shows "\<exists>p i. length p \<le> 256 \<and> dir_at fs p i \<and> dir_listing fs p i = Inl e"
  using walk_loop_error [of fs "[([], fs_root fs, 0)]" "{}" "[]" e] assms
  by (simp add: walk_def item_ok_def dir_at_root walk_max_depth_def)

theorem walk_error_is_a_read_error_witness:
  "\<exists>p i. length p \<le> 256 \<and> dir_at (loop_fs {OpaqueId 6}) p i
     \<and> dir_listing (loop_fs {OpaqueId 6}) p i = Inl (Unsupported ''demo'' ''meta'')"
  by (rule walk_error_is_a_read_error [OF loop_walk_bad])

end
