(* ===== verification/Walk_Cap.thy ===== *)
theory Walk_Cap
  imports Walk_Properties
begin

text \<open>
  The depth cap of \<open>walk\<close> and its visited set together: a filesystem on which a directory is linked
  both near the root and at the end of a long chain. \<open>walk\<close> reaches it through the chain first, has no
  level left for its subdirectories, and skips it as visited when it comes to the link near the root.
\<close>

section \<open>The filesystem\<close>

text \<open>Directories 0 to 255 are a chain. The first also lists 1000, as \<open>x\<close>, and so does the last;
  1000 lists the directory 1001, and that lists the file 1002.\<close>

definition deep_id :: "nat \<Rightarrow> file_id" where
  "deep_id n = OpaqueId (word_of_nat n)"

definition deep_entry :: "bytes \<Rightarrow> nat \<Rightarrow> dir_entry vfs_result" where
  "deep_entry name n = Inr \<lparr>de_name = name, de_id = deep_id n, de_kind = OtherNode\<rparr>"

definition deep_children :: "nat \<Rightarrow> (bytes \<times> nat) list" where
  "deep_children n =
     (if n = 0 then [([120], 1000), ([97], 1)]
      else if n < 255 then [([97], n + 1)]
      else if n = 255 then [([120], 1000)]
      else if n = 1000 then [([121], 1001)]
      else if n = 1001 then [([102], 1002)]
      else [])"

fun deep_number :: "file_id \<Rightarrow> nat" where
  "deep_number (OpaqueId w) = unat w"
| "deep_number _ = 0"

definition deep_meta :: "nat \<Rightarrow> fs_meta" where
  "deep_meta n = loop_meta (if n = 1002 then FileNode else DirNode)"

definition deep_fs :: "nat file_system" where
  "deep_fs = (loop_fs {})
     \<lparr>fs_root := deep_id 0,
      fs_read_dir := \<lambda>i. Inr (stream_new (map (\<lambda>(name, n). deep_entry name n) (deep_children (deep_number i)))),
      fs_meta_of := \<lambda>i. Inr (deep_meta (deep_number i))\<rparr>"

lemma deep_fs_simps [simp]:
  "fs_root deep_fs = deep_id 0"
  "fs_read_dir deep_fs i
     = Inr (stream_new (map (\<lambda>(name, n). deep_entry name n) (deep_children (deep_number i))))"
  "fs_meta_of deep_fs i = Inr (deep_meta (deep_number i))"
  by (simp_all add: deep_fs_def)

lemma deep_number_id: "n < 2 ^ 64 \<Longrightarrow> deep_number (deep_id n) = n"
  by (simp add: deep_id_def unat_of_nat)

lemma deep_id_eq_iff: "n < 2 ^ 64 \<Longrightarrow> m < 2 ^ 64 \<Longrightarrow> deep_id n = deep_id m \<longleftrightarrow> n = m"
  by (metis deep_number_id)

definition deep_found :: "bytes list \<Rightarrow> bytes \<Rightarrow> nat \<Rightarrow> walk_entry" where
  "deep_found p name n = \<lparr>we_path = p @ [name], we_id = deep_id n, we_meta = deep_meta n\<rparr>"

lemma deep_found_simps [simp]:
  "we_id (deep_found p name n) = deep_id n" "we_path (deep_found p name n) = p @ [name]"
  "is_dir_entry (deep_found p name n) \<longleftrightarrow> n \<noteq> 1002"
  by (simp_all add: deep_found_def is_dir_entry_def deep_meta_def loop_meta_def)

lemma deep_children_bounds:
  "(name, m) \<in> set (deep_children n) \<Longrightarrow> m < 2 ^ 64 \<and> \<not> dot_name name"
  by (auto simp: deep_children_def dot_name_def split: if_splits)

lemma deep_items:
  "(\<And>name m. (name, m) \<in> set cs \<Longrightarrow> m < 2 ^ 64 \<and> \<not> dot_name name) \<Longrightarrow>
     list_items deep_fs p (map (\<lambda>(name, n). deep_entry name n) cs)
       = Inr (map (\<lambda>(name, m). deep_found p name m) cs)"
proof (induction cs)
  case (Cons c cs)
  obtain name m where c: "c = (name, m)" by (cases c)
  with Cons.prems have m: "m < 2 ^ 64" "\<not> dot_name name" by auto
  have "list_items deep_fs p (map (\<lambda>(name, n). deep_entry name n) cs)
      = Inr (map (\<lambda>(name, m). deep_found p name m) cs)"
    using Cons.prems by (intro Cons.IH) auto
  with m show ?case by (simp add: c deep_entry_def [of name] deep_found_def [of p name] deep_number_id)
qed simp

lemma deep_listing:
  assumes "n < 2 ^ 64"
  shows "dir_listing deep_fs p (deep_id n) = Inr (map (\<lambda>(name, m). deep_found p name m) (deep_children n))"
proof -
  have "fs_read_dir deep_fs (deep_id n)
      = Inr (stream_new (map (\<lambda>(name, n). deep_entry name n) (deep_children n)))"
    using assms by (simp add: deep_number_id)
  moreover have "stream_items (stream_new xs) = xs" for xs :: "dir_entry vfs_result list"
    by (simp add: stream_new_def)
  ultimately show ?thesis using deep_items deep_children_bounds by (simp add: dir_listing_def)
qed

section \<open>The traversal\<close>

lemma deep_loop_step:
  assumes "n < 2 ^ 64" and "depth \<le> 256" and "deep_id n \<notin> visited"
  shows "walk_loop deep_fs ((p, deep_id n, depth) # stack) visited out =
    walk_loop deep_fs
      (rev (subdirs depth (map (\<lambda>(name, m). deep_found p name m) (deep_children n))) @ stack)
      (insert (deep_id n) visited) (out @ map (\<lambda>(name, m). deep_found p name m) (deep_children n))"
  using walk_loop_step [of depth "deep_id n" visited deep_fs p stack out] assms deep_listing [OF assms(1), of p]
  by (simp add: walk_max_depth_def del: walk_loop.simps)

text \<open>The end of the chain: 1000 is read at the last level, and its subdirectory dropped.\<close>

lemma deep_loop_end:
  assumes "visited = deep_id ` {..<255}"
  shows "\<exists>es. walk_loop deep_fs [(p, deep_id 255, 255), (q, deep_id 1000, 1)] visited out = Inr (out @ es)
    \<and> deep_id 1002 \<notin> we_id ` set es"
proof -
  have "deep_id 255 \<notin> visited" "deep_id 1000 \<notin> insert (deep_id 255) visited"
    by (auto simp: assms deep_id_eq_iff)
  then show ?thesis
    by (simp add: deep_loop_step deep_children_def subdirs_def walk_loop_skip walk_max_depth_def
        deep_id_eq_iff del: walk_loop.simps(2))
qed

lemma deep_loop_chain:
  assumes "1 \<le> k" and "k \<le> 255"
  shows "\<exists>es. walk_loop deep_fs [(p, deep_id k, k), (q, deep_id 1000, 1)] (deep_id ` {..<k}) out = Inr (out @ es)
    \<and> deep_id 1002 \<notin> we_id ` set es"
  using assms
proof (induction "255 - k" arbitrary: k p out)
  case 0
  with deep_loop_end [OF refl] show ?case by simp
next
  case (Suc d)
  then have k: "k < 255" "1 \<le> k" and d: "d = 255 - Suc k" by auto
  have fresh: "deep_id k \<notin> deep_id ` {..<k}" using k by (auto simp: deep_id_eq_iff)
  have "walk_loop deep_fs [(p, deep_id k, k), (q, deep_id 1000, 1)] (deep_id ` {..<k}) out
      = walk_loop deep_fs [(p @ [[97]], deep_id (Suc k), Suc k), (q, deep_id 1000, 1)]
          (deep_id ` {..<Suc k}) (out @ [deep_found p [97] (Suc k)])"
    using k fresh
    by (simp add: deep_loop_step deep_children_def subdirs_def lessThan_Suc del: walk_loop.simps(2))
  with Suc.hyps(1) [OF d, of "p @ [[97]]" "out @ [deep_found p [97] (Suc k)]"] k show ?case
    by (fastforce simp: deep_id_eq_iff)
qed

lemma deep_walk: "\<exists>res. walk deep_fs = Inr res \<and> deep_id 1002 \<notin> we_id ` set res"
proof -
  let ?out = "[deep_found [] [120] 1000, deep_found [] [97] 1]"
  have "walk deep_fs = walk_loop deep_fs [([[97]], deep_id 1, 1), ([[120]], deep_id 1000, 1)] {deep_id 0} ?out"
    by (simp add: walk_def deep_loop_step deep_children_def
        subdirs_def del: walk_loop.simps(2))
  moreover have "{deep_id 0} = deep_id ` {..<1}" by auto
  ultimately show ?thesis
    using deep_loop_chain [of 1 "[[97]]" "[[120]]" ?out] by (auto simp: deep_id_eq_iff)
qed

section \<open>Property\<close>

text \<open>C29: the cap hides nodes that are not deep. There is a filesystem on which \<open>walk\<close> succeeds and
  the node \<open>/x/y/f\<close>, three levels down, is not among the results, although every directory on the way
  can be listed: \<open>/x\<close> was met at level 256 first, and \<open>y\<close> was then too deep.\<close>

theorem walk_cap_hides_shallow_node:
  "\<exists>res e. walk deep_fs = Inr res \<and> dir_at deep_fs [[120], [121]] (deep_id 1001)
     \<and> dir_listing deep_fs [[120], [121]] (deep_id 1001) = Inr [e]
     \<and> we_path e = [[120], [121], [102]] \<and> we_id e \<notin> we_id ` set res"
proof -
  have "dir_at deep_fs [] (deep_id 0)"
    using dir_at_root [of deep_fs] by simp
  then have "dir_at deep_fs [[120]] (deep_id 1000)"
    using dir_at_sub [of deep_fs "[]" "deep_id 0" _ "deep_found [] [120] 1000"]
    by (simp add: deep_listing deep_children_def)
  then have "dir_at deep_fs [[120], [121]] (deep_id 1001)"
    using dir_at_sub [of deep_fs "[[120]]" "deep_id 1000" _ "deep_found [[120]] [121] 1001"]
    by (simp add: deep_listing deep_children_def)
  moreover have "dir_listing deep_fs [[120], [121]] (deep_id 1001) = Inr [deep_found [[120], [121]] [102] 1002]"
    by (simp add: deep_listing deep_children_def)
  ultimately show ?thesis using deep_walk by fastforce
qed

end
