(* ===== verification/Walk_Recursive.thy ===== *)
theory Walk_Recursive
  imports Walk
begin

text \<open>
  The traversal against a recursive reference. \<open>walk\<close> keeps an explicit stack of directories with
  their paths and depths; \<open>visit_dir\<close> is the depth-first search that recurses into the
  subdirectories of a listing, the last one first, and threads the visited ids and the entries found
  through. They are the same function, on every filesystem, errors and cycles included.
\<close>

section \<open>The recursion\<close>

type_synonym walk_state = "file_id set \<times> walk_entry list"

text \<open>A loop over a list that may fail and carries a state.\<close>

fun fold_res :: "('a \<Rightarrow> 's \<Rightarrow> 'e + 's) \<Rightarrow> 'a list \<Rightarrow> 's \<Rightarrow> 'e + 's" where
  "fold_res f [] s = Inr s"
| "fold_res f (x # xs) s = res_bind (f x s) (fold_res f xs)"

text \<open>\<open>n\<close> is the number of directory levels that are left.\<close>

primrec visit_dir ::
    "'k file_system \<Rightarrow> nat \<Rightarrow> bytes list \<times> file_id \<Rightarrow> walk_state \<Rightarrow> walk_state vfs_result" where
  "visit_dir fs 0 = (\<lambda>dir state. Inr state)"
| "visit_dir fs (Suc n) = (\<lambda>(path, dir_id) (visited, out).
     if dir_id \<in> visited then Inr (visited, out)
     else res_bind (dir_listing fs path dir_id) (\<lambda>es.
       fold_res (\<lambda>e. visit_dir fs n (we_path e, we_id e)) (rev (filter is_dir_entry es))
         (insert dir_id visited, out @ es)))"

definition walk_recursive :: "'k file_system \<Rightarrow> walk_entry list vfs_result" where
  "walk_recursive fs =
     res_bind (visit_dir fs (walk_max_depth + 1) ([], fs_root fs) ({}, [])) (\<lambda>(visited, out). Inr out)"

section \<open>The stack is the recursion\<close>

definition at_depth :: "nat \<Rightarrow> walk_entry \<Rightarrow> walk_item" where
  "at_depth depth e = (we_path e, we_id e, depth)"

lemma subdirs_at_depth: "rev (subdirs depth es) = map (at_depth (Suc depth)) (rev (filter is_dir_entry es))"
  by (simp add: subdirs_def at_depth_def [abs_def] rev_map)

text \<open>From one pushed directory to a row of them.\<close>

lemma walk_row:
  assumes "\<And>path dir_id stack visited out.
      walk_loop fs ((path, dir_id, depth) # stack) visited out
        = res_bind (f (path, dir_id) (visited, out)) (\<lambda>(visited, out). walk_loop fs stack visited out)"
  shows "walk_loop fs (map (at_depth depth) ds @ stack) visited out
    = res_bind (fold_res (\<lambda>e. f (we_path e, we_id e)) ds (visited, out))
        (\<lambda>(visited, out). walk_loop fs stack visited out)"
proof (induction ds arbitrary: visited out)
  case (Cons d ds)
  then show ?case
    by (cases "f (we_path d, we_id d) (visited, out)") (auto simp: at_depth_def assms simp del: walk_loop.simps(2))
qed simp

lemma walk_loop_visit:
  "depth + n = walk_max_depth + 1 \<Longrightarrow>
     walk_loop fs ((path, dir_id, depth) # stack) visited out
       = res_bind (visit_dir fs n (path, dir_id) (visited, out))
           (\<lambda>(visited, out). walk_loop fs stack visited out)"
proof (induction n arbitrary: depth path dir_id stack visited out)
  case 0
  then show ?case by simp
next
  case (Suc n)
  have row: "walk_loop fs (map (at_depth (Suc depth)) ds @ stack) visited' out'
      = res_bind (fold_res (\<lambda>e. visit_dir fs n (we_path e, we_id e)) ds (visited', out'))
          (\<lambda>(visited, out). walk_loop fs stack visited out)" for ds visited' out'
    using Suc by (intro walk_row) simp
  have "depth \<le> walk_max_depth" using Suc.prems by simp
  then show ?case
    by (cases "dir_id \<in> visited"; cases "dir_listing fs path dir_id")
       (simp_all add: walk_loop_step walk_loop_skip subdirs_at_depth row del: walk_loop.simps(2))
qed

text \<open>C14: the explicit stack computes the recursive depth-first search. On every filesystem, whether
  it fails, shares directories or has cycles, \<open>walk\<close> gives what the search that recurses into the
  subdirectories of each listing gives: the same entries in the same order, under the same paths,
  cut off at the same depth, or the same first error.\<close>

theorem walk_is_recursive_search: "walk fs = walk_recursive fs"
  unfolding walk_def walk_recursive_def
  by (subst walk_loop_visit [of 0 "walk_max_depth + 1"]) (simp_all add: case_prod_unfold)

end
