(* ===== verification/Snapshot.thy ===== *)
theory Snapshot
  imports Resolver Bounded_Read "HOL-Library.List_Lexorder"
begin

text \<open>
  The snapshot view (\<open>snapshot_view\<close> and \<open>epoch_from_create_time\<close> in \<open>crates/resolver/src/lib.rs\<close>).
  \<open>EpochTag\<close> belongs to an external crate: its constructor \<open>EpochTag::from_bytes\<close> is the parameter
  \<open>from_bytes\<close>, and what is proved concerns the 32 bytes that it is given. Byte strings are ordered
  lexicographically, as Rust orders arrays.
\<close>

record ('e, 'k) snapshot_view =
  sv_epoch :: 'e
  sv_xid :: u64
  sv_name :: string
  sv_locator :: "'k locator"

text \<open>\<open>bytes[24..32].copy_from_slice(&create_time_ns.to_be_bytes())\<close> on 32 zero bytes.\<close>

definition epoch_bytes :: "u64 \<Rightarrow> bytes" where
  "epoch_bytes create_time_ns =
     (let bs = replicate 32 0 in take 24 bs @ u64_to_be_bytes create_time_ns @ drop 32 bs)"

definition epoch_from_create_time :: "(bytes \<Rightarrow> 'e) \<Rightarrow> u64 \<Rightarrow> 'e" where
  "epoch_from_create_time from_bytes create_time_ns = from_bytes (epoch_bytes create_time_ns)"

definition snapshot_view ::
    "(bytes \<Rightarrow> 'e) \<Rightarrow> 'k locator \<Rightarrow> u64 \<Rightarrow> string \<Rightarrow> u64 \<Rightarrow> ('e, 'k) snapshot_view" where
  "snapshot_view from_bytes source_spec xid name create_time =
     \<lparr>sv_epoch = epoch_from_create_time from_bytes create_time,
      sv_xid = xid,
      sv_name = name,
      sv_locator = locator_push source_spec (SnapshotLayer (ApfsXid xid))\<rparr>"

lemma sv_locator_snapshot_view [simp]:
  "sv_locator (snapshot_view from_bytes spec xid name t) = locator_push spec (SnapshotLayer (ApfsXid xid))"
  by (simp add: snapshot_view_def)

section \<open>Big-endian order is lexicographic\<close>

lemma be_value_mono:
  "length xs = length ys \<Longrightarrow> xs < ys \<longleftrightarrow> be_value xs < be_value ys"
proof (induction xs ys rule: list_induct2)
  case (Cons x xs y ys)
  have bx: "be_value xs < 256 ^ length ys" and by0: "be_value ys < 256 ^ length ys"
    using be_value_less [of xs] be_value_less [of ys] Cons.hyps by simp_all
  show ?case
  proof (cases "x = y")
    case True
    then show ?thesis using Cons by simp
  next
    case False
    have lt: "unat a * 256 ^ length ys + u < unat b * 256 ^ length ys + v"
      if "unat a < unat b" "u < 256 ^ length ys" for a b :: u8 and u v :: nat
    proof -
      have "(unat a + 1) * 256 ^ length ys \<le> unat b * 256 ^ length ys"
        using that(1) by (intro mult_right_mono) auto
      then show ?thesis using that(2) by simp
    qed
    consider "x < y" | "y < x" using False by (meson linorder_neqE)
    then show ?thesis
    proof cases
      case 1
      with lt [of x y, OF _ bx] Cons.hyps show ?thesis by (simp add: word_less_nat_alt)
    next
      case 2
      then have "\<not> x < y" "y \<noteq> x" by auto
      with 2 lt [of y x "be_value ys" "be_value xs"] by0 Cons.hyps show ?thesis
        by (simp add: word_less_nat_alt order_less_imp_le not_less)
    qed
  qed
qed simp

lemma be_value_u64: "be_value (u64_to_be_bytes w) = unat w"
proof -
  have "unat w < 256 ^ 8" using unsigned_less [of w] by simp
  then show ?thesis by (simp add: u64_to_be_bytes_def be_value_be_bytes)
qed

lemma length_u64_to_be_bytes [simp]: "length (u64_to_be_bytes w) = 8"
  by (simp add: u64_to_be_bytes_def)

lemma epoch_bytes_eq: "epoch_bytes t = replicate 24 0 @ u64_to_be_bytes t"
  by (simp add: epoch_bytes_def)

lemma append_less_same: "xs @ ys < xs @ zs \<longleftrightarrow> ys < (zs :: bytes)"
  by (induction xs) auto

section \<open>Properties\<close>

text \<open>C37: the time of a snapshot is in its epoch tag, and tags order as times do. The 32 bytes given
  to \<open>EpochTag::from_bytes\<close> are 24 zero bytes and the time, most significant byte first: reading the
  last eight back gives the time, and a later time gives a lexicographically greater tag, so two
  tags are equal only when the times are.\<close>

theorem epoch_reversible_and_ordered:
  "length (epoch_bytes t) = 32 \<and> be_u64 (epoch_bytes t) 24 = t
   \<and> (epoch_bytes t < epoch_bytes u \<longleftrightarrow> t < u)"
proof (intro conjI)
  show "length (epoch_bytes t) = 32" by (simp add: epoch_bytes_eq)
  show "be_u64 (epoch_bytes t) 24 = t"
    by (simp add: be_u64_def bounded_reader_in_range epoch_bytes_eq from_be_bytes_u64)
  show "epoch_bytes t < epoch_bytes u \<longleftrightarrow> t < u"
    by (simp add: epoch_bytes_eq append_less_same be_value_mono be_value_u64 word_less_nat_alt)
qed

end
