(* ===== verification/Spec2Isabelle.thy ===== *)
theory Spec2Isabelle
  imports Uri_Properties Uri_Grammar Core_Properties Adapter_Properties Pool_Properties
    Resolver_Properties Search_Order Walk_Cap Walk_Recursive Snapshot
begin

text \<open>
  A model of \<open>forensic-vfs\<close>, a read-only stack of byte sources, containers, volumes, encryption
  layers, archives and filesystems for forensic evidence, and the theorems that make it correct. The
  Rust sources are \<open>crates/core/src\<close> (the contracts, the byte adapters, the bounded readers, the
  locator and its URI codec) and \<open>crates/resolver/src/lib.rs\<close> (the generic resolver).

  \<^bold>\<open>How the parts interact.\<close> A \<open>dyn ImageSource\<close> is a record of methods (\<open>image_source\<close>); whatever
  is read is read through its \<open>read_at\<close>. The adapters build sources from files (\<open>FileSource\<close>), from
  other sources (\<open>SubRange\<close>) and from pools of seekable readers (\<open>SeekPoolSource\<close>), and view a
  source as a seekable reader (\<open>SourceCursor\<close>). The resolver sniffs the head and the tail of a source
  into a \<open>SniffWindow\<close>, asks the openers of the dispatch table \<open>Openers\<close> what they recognise, lets the
  first that claims the source peel a layer off, and descends into the result until a filesystem
  mounts, or until nothing more can be peeled. It records each peeled layer in a \<open>Locator\<close>, which the
  codec writes as a URI and parses back. \<open>walk\<close> lists a mounted filesystem.

  \<^bold>\<open>Foundations.\<close>
    \<^item> \<open>Prelude\<close>: integer types, checked and saturating arithmetic, results, slices.
    \<^item> \<open>Text_Ops\<close>: the operations of \<open>str\<close> that the codec calls, with their inverses.
    \<^item> \<open>Errors\<close> (\<open>error.rs\<close>): \<open>SmallHex\<close> with both renderings, \<open>VfsError\<close> with its messages, \<open>io_err\<close>.
    \<^item> \<open>Utf8\<close>: lossy decoding of bytes and of the paths of each platform.
    \<^item> \<open>Bounded_Read\<close> (\<open>read.rs\<close>): the macro's body once and its six instances.

  \<^bold>\<open>Byte sources.\<close>
    \<^item> \<open>Image_Source\<close> (\<open>source.rs\<close>): the trait with its provided methods, the extent map,
      \<open>read_exact_at\<close>; the locale \<open>byte_source\<close> is a source of given bytes whose reads may be short,
      \<open>filling_source\<close> one that fills buffers up to some size, as the trait documents \<open>read_at\<close>,
      \<open>fitting_source\<close> the part that needs no bytes.
    \<^item> \<open>Adapters\<close> (\<open>SubRange\<close> and \<open>FileSource\<close> of \<open>adapters.rs\<close>): both meet \<open>byte_source\<close>, and
      \<open>filling_source\<close> up to the size that the operating system never reads short; a
      \<open>sublocale\<close> gives each contract of a window from that of its parent.
    \<^item> \<open>Seek_Adapters\<close> (\<open>SourceCursor\<close> and \<open>SeekPoolSource\<close>): the locales \<open>fitting_reader\<close> and, extending
      it, \<open>seekable_reader\<close> are the contract of \<open>Read + Seek\<close>, which the cursor provides and the pool uses.
    \<^item> \<open>Pool_Threads\<close>: reads of one pool by many threads, as the step relation \<open>pool_step\<close>, with reads
      that panic and poison their mutex; mutual exclusion by rule induction, and from it the results,
      progress, a bound on the steps, and what a poisoned reader costs.
    \<^item> \<open>Adapter_Properties\<close>, \<open>Pool_Properties\<close>: the properties of these, over files.

  \<^bold>\<open>Contracts.\<close>
    \<^item> \<open>Encryption\<close> (\<open>encryption.rs\<close>), \<open>Volume\<close> (\<open>volume.rs\<close>, \<open>archive.rs\<close>), \<open>Fs\<close> (\<open>fs.rs\<close>):
      every enum, struct and trait, a trait object as a record of its methods.
    \<^item> \<open>Registry\<close> (\<open>registry.rs\<close>): formats, verdicts, the sniff window and its probes, the opener
      traits, the dispatch table. \<open>Locator\<close> (\<open>locator.rs\<close>): layers and the chain of them.
    \<^item> \<open>Core_Properties\<close>: the properties of the readers, snapshots, extents, probes and chains.

  \<^bold>\<open>The codec\<close> (\<open>uri.rs\<close>).
    \<^item> \<open>Percent\<close>: percent encoding, the decoder's loop against a specification, and the locales
      \<open>text_codec\<close> and \<open>piece_codec\<close> that each level of the codec is an interpretation of.
    \<^item> \<open>Tokens\<close>, \<open>Token_Codecs\<close>: words, numbers, GUIDs, file ids, streams, node addresses.
    \<^item> \<open>Uri\<close>: layers, \<open>to_uri\<close>, \<open>from_uri\<close>, the serde forms. \<open>Codec_Errors\<close>: what a failure shows.
      \<open>Uri_Display\<close>: \<open>impl Display\<close> with lossy decoding. \<open>Uri_Properties\<close>: the properties.
      \<open>Uri_Grammar\<close>: the alphabet of a URI, and its delimiters as structure only.

  \<^bold>\<open>The resolver\<close> (\<open>crates/resolver/src/lib.rs\<close>).
    \<^item> \<open>Resolver\<close>: sniffing, \<open>open_with_credentials\<close> and its six descents, \<open>resolve_to_source\<close>,
      \<open>open_tree\<close>. \<open>Resolver_Spec\<close>: the descent as one ordered list of attempts, proved equal.
    \<^item> \<open>Peeling\<close>: the step relations \<open>unpack\<close> and \<open>peel\<close>; \<open>Resolver_Lemmas\<close>: finds of the
      resolver over those steps, and the lack of one; \<open>Faults\<close>: where its errors come from; \<open>Sniffing\<close>: the window of a source that meets its contract;
      \<open>Resolver_Properties\<close>: the properties.
    \<^item> \<open>Search_Order\<close>: the tree that the openers span over the evidence, in the order of the search;
      the resolver gives its first outcome.
    \<^item> \<open>Walk\<close>, \<open>Walk_Properties\<close>: the traversal, against the reachability relation \<open>dir_at\<close>;
      \<open>Walk_Cap\<close>: what its depth cap and its visited set hide together; \<open>Walk_Recursive\<close>: the loop
      and its stack as a recursive depth-first search.
    \<^item> \<open>Snapshot\<close>: \<open>snapshot_view\<close> and the epoch of a creation time.

  \<^bold>\<open>What the properties show.\<close> A locator that the codec can carry comes back
  unchanged from its URI, and of any other it is known what comes back; what the parser accepts is
  stable, what it rejects it reports with the layer or component it refused. The delimiters of a URI are structure only. The
  resolver returns only what a chain of peeled layers reaches, with a locator that records that
  chain; when it returns nothing, every claimed layer was searched; what it returns is the first of
  all outcomes in the documented order; a credential attempt that fails changes nothing, every
  error is the fault of a reachable layer, while a recognised scheme that cannot be unlocked and a
  recognised filesystem that cannot be mounted are reported. A walk that never meets its depth cap
  lists every reachable node, no directory twice, in depth-first order, and any error of the
  filesystem is its result. Windows of sources and pools of cursors present exactly the bytes of
  their window, also under concurrent reads that may panic, which never deadlock. A cursor that is
  read again and again gives each byte once and in order. All this holds however short the reads of
  the operating system are; that one read, and an exact read, gives all there is needs a buffer of a
  size that it never reads short. Bounded reads never leave their buffer.

  \<^bold>\<open>Conventions and bounds.\<close> A call that fails gives \<open>Inl\<close> of an error (\<open>vfs_result\<close>); a caller's
  buffer is an argument and the buffer after the call is part of the result. Offsets and lengths are
  \<open>u64\<close> words with the checked, saturating and wrapping operations of the code; \<open>usize\<close> has 64
  bits. A \<open>str\<close> is its UTF-8 bytes and a path the bytes of its \<open>OsStr\<close>: any bytes on Unix, WTF-8 on
  Windows; the platform is an argument where the code has \<open>cfg\<close> attributes. There is no fuel: the resolver
  recurses on \<open>max_depth + 1 - depth\<close> (\<open>MAX_DEPTH\<close> is 8), and the loop of \<open>walk\<close> on the multiset of
  the levels that the stacked directories have left (\<open>WALK_MAX_DEPTH\<close> is 256). Each is total, whatever
  the openers and filesystems answer.

  \<^bold>\<open>Parameters.\<close> \<open>FsKind\<close> belongs to the crate \<open>forensicnomicon-core\<close>: it is a type parameter, and
  the codec gets its registry in \<open>codec_env\<close>, with \<open>fs_kinds_ok\<close> (known names are distinct and come
  back from their own text) where a property needs it. \<open>FileId\<close>, from the same crate, is what \<open>uri.rs\<close>
  matches of it, with \<open>FutureFileId\<close> for the wildcard. \<open>EpochTag::from_bytes\<close>, the openers, the
  credentials, the serde format and the operating system's file are arguments. A file is its length and
  bytes, its failures, and which reads the system cuts short (\<open>of_whole\<close>, \<open>of_short\<close>): the standard
  library lets any read be short as long as it makes progress, and Linux cuts reads of a regular file
  at 0x7ffff000 bytes. Two reads of the same file with the same arguments give the same.

  \<^bold>\<open>Not modelled.\<close> The \<open>findings\<close> methods, which exist under a feature of an external crate; the
  crate root, which only declares and re-exports; the escapes that \<open>{:?}\<close> has for unprintable
  characters outside ASCII. Every other function of the two crates is a definition.
\<close>

section \<open>Properties that span components\<close>

lemma descent_layer_ok: "descent_layer l \<Longrightarrow> layer_ok K l"
  by (auto simp: descent_layer_def layer_ok_def split: layer.splits option.splits)

lemma resolved_locator_ok:
  assumes "open_with_credentials ops creds source spec depth = Inr (Some r)"
    and "locator_ok K spec" and "list_all (\<lambda>p. fo_kind p \<in> set (fk_known K)) (op_filesystems ops)"
  shows "locator_ok K (rs_source_spec r) \<and> locator_ok K (rs_spec r)"
proof -
  from open_Some_path [OF assms(1)] obtain n where m: "mounted ops r"
    and path: "(peel ops creds ^^ n) (source, spec) (rs_source r, rs_source_spec r)" by blast
  from steps_layers [OF _ path, of descent_layer] peel_layers obtain ls
    where ls: "list_all descent_layer ls" "locator_layers (rs_source_spec r) = locator_layers spec @ ls"
    by fastforce
  then have base: "locator_ok K (rs_source_spec r)"
    using assms(2) by (auto simp: locator_ok_def list_all_iff descent_layer_ok)
  from m obtain p where "p \<in> set (op_filesystems ops)"
    "rs_spec r = locator_push (rs_source_spec r) (FsLayer (fo_kind p) (PathAddr []))"
    by (auto simp: mounted_def list_ex_iff split: sum.splits)
  with base assms(3) show ?thesis
    by (auto simp: locator_ok_def list_all_iff layer_ok_def node_addr_ok_def)
qed

text \<open>C17: a resolved address can be kept. When the evidence's own locator can be carried by the codec
  and the probers mount kinds that the registry knows, the locator of every mount that \<open>open\<close>
  returns survives being serialized and deserialized again in any format that gives back the strings
  it was given, and so does that of any snapshot viewed on its source, so the route to the evidence
  can be stored and replayed.\<close>

theorem resolved_locator_persists:
  assumes "fs_kinds_ok K" and "locator_ok K spec"
    and "list_all (\<lambda>p. fo_kind p \<in> set (fk_known K)) (op_filesystems ops)"
    and "open_with_credentials ops creds source spec depth = Inr (Some r)"
    and "\<And>u. \<exists>out. serialize_str u = Inr out \<and> string_of out = Inr u"
    and "l \<in> {rs_spec r, sv_locator (snapshot_view from_bytes (rs_source_spec r) xid name t)}"
  shows "\<exists>out. serialize_locator K serialize_str l = Inr out
    \<and> deserialize_locator K custom (string_of out) = Inr l"
proof -
  have "locator_ok K (rs_spec r)" and src: "locator_ok K (rs_source_spec r)"
    using resolved_locator_ok [OF assms(4,2,3)] by blast+
  moreover from src have "locator_ok K (sv_locator (snapshot_view from_bytes (rs_source_spec r) xid name t))"
    by (simp add: locator_ok_def layer_ok_def)
  ultimately have "locator_ok K l" using assms(6) by blast
  then have "from_uri K (to_uri K l) = Inr l"
    using parse_layers_encode [OF assms(1)] by (simp add: to_uri_def)
  moreover obtain out where "serialize_str (to_uri K l) = Inr out" "string_of out = Inr (to_uri K l)"
    using assms(5) by blast
  ultimately show ?thesis by (simp add: serialize_locator_def deserialize_locator_def)
qed

text \<open>A format that writes a string between quotation marks.\<close>

definition quoted_str :: "string \<Rightarrow> string + string" where
  "quoted_str u = Inr (CHR 0x22 # u @ [CHR 0x22])"

definition unquoted :: "string \<Rightarrow> string + string" where
  "unquoted s = Inr (butlast (tl s))"

theorem resolved_locator_persists_witness:
  "\<exists>r out. open_with_credentials demo_openers no_credentials (ram_source [67]) (locator_file []) 0 = Inr (Some r)
     \<and> deserialize_locator demo_kinds id (unquoted out) = Inr (rs_spec r)"
proof -
  obtain r where r: "open_with_credentials demo_openers no_credentials (ram_source [67]) (locator_file []) 0
      = Inr (Some r)" using demo_opened by blast
  have "locator_ok demo_kinds (locator_file [])"
    by (simp add: locator_ok_def locator_file_def path_ok_def demo_kinds_def)
  moreover have "list_all (\<lambda>p. fo_kind p \<in> set (fk_known demo_kinds)) (op_filesystems demo_openers)"
    by (simp add: demo_kinds_def)
  moreover have "\<exists>out. quoted_str u = Inr out \<and> unquoted out = Inr u" for u
    by (simp add: quoted_str_def unquoted_def butlast_append)
  ultimately show ?thesis
    using resolved_locator_persists [OF demo_kinds_ok _ _ r, of quoted_str unquoted "rs_spec r"] r
    by blast
qed

end
